theory Spec2Isabelle
  imports Complex_Main "HOL-Library.Word"
begin

section \<open>Python strings\<close>

text \<open>
  A Python \<open>str\<close> is a sequence of Unicode code points, so a string is modelled as a list of
  code points and not as a list of bytes: \<open>len\<close>, \<open>strip\<close> and the regular expressions of
  the source all count code points. \<open>ascii\<close> embeds an ASCII literal.
\<close>

type_synonym uchar = nat
type_synonym pystr = "uchar list"

definition ascii :: "string \<Rightarrow> pystr" where
  "ascii s = map of_char s"

text \<open>
  The two grand-total markers of the source, \<open>'\<dots>'\<close> written with the code points
  U+5408 U+8BA1 and U+5408 U+0020 U+8BA1.
\<close>

definition heji :: pystr where
  "heji = [0x5408, 0x8BA1]"

definition he_ji :: pystr where
  "he_ji = [0x5408, 0x20, 0x8BA1]"

text \<open>\<open>str.isspace\<close> of one code point (the whitespace table of CPython) and \<open>str.strip()\<close>.\<close>

definition py_isspace :: "uchar \<Rightarrow> bool" where
  "py_isspace c =
     ((0x09 \<le> c \<and> c \<le> 0x0D) \<or> (0x1C \<le> c \<and> c \<le> 0x20) \<or> c = 0x85 \<or> c = 0xA0 \<or>
      c = 0x1680 \<or> (0x2000 \<le> c \<and> c \<le> 0x200A) \<or> c = 0x2028 \<or> c = 0x2029 \<or>
      c = 0x202F \<or> c = 0x205F \<or> c = 0x3000)"

definition py_strip :: "pystr \<Rightarrow> pystr" where
  "py_strip s = rev (dropWhile py_isspace (rev (dropWhile py_isspace s)))"

section \<open>The regular expressions of the worker\<close>

text \<open>
  In a \<open>str\<close> pattern \<open>\d\<close> matches every code point of the Unicode category Nd, not only
  the ASCII digits. The table is the one of Unicode 14.0 (CPython 3.11): sixty-one blocks of
  ten digits, given by their first code point, and the fifty mathematical digits.
\<close>

definition decimal_blocks :: "uchar list" where
  "decimal_blocks =
     [0x30, 0x660, 0x6F0, 0x7C0, 0x966, 0x9E6, 0xA66, 0xAE6, 0xB66, 0xBE6, 0xC66, 0xCE6,
      0xD66, 0xDE6, 0xE50, 0xED0, 0xF20, 0x1040, 0x1090, 0x17E0, 0x1810, 0x1946, 0x19D0,
      0x1A80, 0x1A90, 0x1B50, 0x1BB0, 0x1C40, 0x1C50, 0xA620, 0xA8D0, 0xA900, 0xA9D0,
      0xA9F0, 0xAA50, 0xABF0, 0xFF10, 0x104A0, 0x10D30, 0x11066, 0x110F0, 0x11136,
      0x111D0, 0x112F0, 0x11450, 0x114D0, 0x11650, 0x116C0, 0x11730, 0x118E0, 0x11950,
      0x11C50, 0x11D50, 0x11DA0, 0x16A60, 0x16AC0, 0x16B50, 0x1E140, 0x1E2F0, 0x1E950,
      0x1FBF0]"

definition re_digit :: "uchar \<Rightarrow> bool" where
  "re_digit c =
     (list_ex (\<lambda>b. b \<le> c \<and> c < b + 10) decimal_blocks \<or> (0x1D7CE \<le> c \<and> c \<le> 0x1D7FF))"

text \<open>
  \<open>re.search(r'\d{10}', s)\<close>: the scan tries every start position from the left, and at a
  position the pattern matches exactly when the next ten code points exist and are digits.
  The match is those ten code points, whatever follows them.
\<close>

definition match_d10 :: "pystr \<Rightarrow> pystr option" where
  "match_d10 s =
     (if 10 \<le> length s \<and> list_all re_digit (take 10 s) then Some (take 10 s) else None)"

fun search_d10 :: "pystr \<Rightarrow> pystr option" where
  "search_d10 [] = None"
| "search_d10 (c # cs) =
     (case match_d10 (c # cs) of Some m \<Rightarrow> Some m | None \<Rightarrow> search_d10 cs)"

definition extract_monthly_card :: "pystr \<Rightarrow> pystr" where
  "extract_monthly_card filename =
     (case search_d10 filename of Some m \<Rightarrow> m | None \<Rightarrow> [])"

text \<open>
  \<open>'\<dots>|\<dots>'\<close> searched in a text by \<open>str.contains\<close>: both alternatives are literals (the
  blank of the first is a literal blank), so the search succeeds exactly when one of the two
  markers starts at some position.
\<close>

definition starts_with :: "pystr \<Rightarrow> pystr \<Rightarrow> bool" where
  "starts_with lit s = (take (length lit) s = lit)"

fun contains_total :: "pystr \<Rightarrow> bool" where
  "contains_total [] = False"
| "contains_total (c # cs) =
     (starts_with he_ji (c # cs) \<or> starts_with heji (c # cs) \<or> contains_total cs)"

text \<open>Ten digits start at position \<open>i\<close> of \<open>s\<close>.\<close>

definition window10 :: "pystr \<Rightarrow> nat \<Rightarrow> bool" where
  "window10 s i = (i + 10 \<le> length s \<and> list_all re_digit (take 10 (drop i s)))"

section \<open>Numbers\<close>

text \<open>
  At run time a number of the source is a \<open>numpy.int64\<close> or a \<open>numpy.float64\<close>. An
  integer is a 64-bit word, read as a signed number: its addition wraps around. A float is
  a real, the idealisation of a double: the rounding of float arithmetic, the rounding of
  \<open>float(n)\<close> for a large integer \<open>n\<close>, infinities and the arithmetic of NaN are not
  modelled, and an integer outside the signed 64-bit range is outside the model.
  \<open>to_float\<close> is \<open>float(x)\<close>; \<open>add_number\<close> is \<open>x + y\<close> on two such scalars, an
  integer only when both are integers. The Python integer \<open>0\<close> that starts the grand
  total behaves as the 64-bit integer \<open>0\<close> under this addition.
\<close>

datatype number = IntNum "64 word" | FloatNum real

fun to_float :: "number \<Rightarrow> real" where
  "to_float (IntNum n) = real_of_int (sint n)"
| "to_float (FloatNum x) = x"

fun add_number :: "number \<Rightarrow> number \<Rightarrow> number" where
  "add_number (IntNum a) (IntNum b) = IntNum (a + b)"
| "add_number (IntNum a) (FloatNum y) = FloatNum (real_of_int (sint a) + y)"
| "add_number (FloatNum x) (IntNum b) = FloatNum (x + real_of_int (sint b))"
| "add_number (FloatNum x) (FloatNum y) = FloatNum (x + y)"

section \<open>Tables\<close>

text \<open>
  A cell of a parsed table is an integer, a float, a text or missing (NaN). A column has a
  label and a dtype, fixed when the file is parsed: a column of dtype \<open>Int64\<close> holds
  integers only, a column of dtype \<open>Float64\<close> floats and missing cells, a column of dtype
  \<open>Object\<close> anything. A label is a string, or any other value read from a spreadsheet
  header (a number, a date), given by its \<open>str()\<close> text: such a label never equals a
  string. A table keeps its columns in order and its rows in order, every row holding one
  cell for each column.
\<close>

datatype cell = IntCell "64 word" | FloatCell real | Text pystr | Missing

datatype dtype = Object | Int64 | Float64

datatype label = StrLabel pystr | OtherLabel pystr

fun py_str :: "label \<Rightarrow> pystr" where
  "py_str (StrLabel s) = s"
| "py_str (OtherLabel r) = r"

record dataframe =
  columns :: "(label \<times> dtype) list"
  rows :: "cell list list"

definition labels :: "dataframe \<Rightarrow> label list" where
  "labels df = map fst (columns df)"

definition rectangular :: "dataframe \<Rightarrow> bool" where
  "rectangular df = list_all (\<lambda>r. length r = length (columns df)) (rows df)"

text \<open>The exceptions of the model, all of them subclasses of \<open>Exception\<close>.\<close>

datatype exn =
  UnicodeDecodeError | AttributeError | TypeError | KeyError | OSError | ValueError | BadZipFile

text \<open>
  \<open>df[col]\<close>: the column labelled \<open>col\<close> as a Series when the label occurs once, a
  DataFrame when it occurs several times, \<open>KeyError\<close> when it does not occur.
\<close>

datatype selection = Series dtype "cell list" | Frame

definition get_loc :: "dataframe \<Rightarrow> label \<Rightarrow> nat list" where
  "get_loc df col = [i \<leftarrow> [0..<length (columns df)]. fst (columns df ! i) = col]"

definition getitem :: "dataframe \<Rightarrow> label \<Rightarrow> exn + selection" where
  "getitem df col =
     (case get_loc df col of
        [] \<Rightarrow> Inl KeyError
      | [i] \<Rightarrow> Inr (Series (snd (columns df ! i)) (map (\<lambda>r. r ! i) (rows df)))
      | _ # _ # _ \<Rightarrow> Inr Frame)"

text \<open>\<open>df.drop(columns=ls)\<close> for labels that all occur, and \<open>df[keep]\<close> for a boolean mask.\<close>

definition drop_columns :: "label list \<Rightarrow> dataframe \<Rightarrow> dataframe" where
  "drop_columns ls df =
     \<lparr>columns = [c \<leftarrow> columns df. fst c \<notin> set ls],
      rows = map (\<lambda>r. map snd [p \<leftarrow> zip (columns df) r. fst (fst p) \<notin> set ls]) (rows df)\<rparr>"

definition boolean_index :: "bool list \<Rightarrow> dataframe \<Rightarrow> dataframe" where
  "boolean_index keep df = df\<lparr>rows := map snd [p \<leftarrow> zip keep (rows df). fst p]\<rparr>"

section \<open>The summary filter\<close>

text \<open>
  \<open>str(c).strip() in ['\<dots>', '\<dots>']\<close> for a label, and one entry of the mask
  \<open>df[col].astype(str).str.contains('\<dots>|\<dots>', regex=True, na=False)\<close>: a text is
  searched as it is; the \<open>str()\<close> of a number or of NaN is ASCII and holds no marker.
\<close>

definition is_total_label :: "label \<Rightarrow> bool" where
  "is_total_label c = (py_strip (py_str c) = he_ji \<or> py_strip (py_str c) = heji)"

fun cell_matches :: "cell \<Rightarrow> bool" where
  "cell_matches (Text s) = contains_total s"
| "cell_matches (IntCell n) = False"
| "cell_matches (FloatCell x) = False"
| "cell_matches Missing = False"

text \<open>
  The loop over \<open>df.columns\<close> of \<open>_preprocess_df\<close>. \<open>df[col].dtype\<close> raises
  \<open>AttributeError\<close> when \<open>df[col]\<close> is a DataFrame, which happens for a repeated label.
\<close>

fun drop_total_rows :: "label list \<Rightarrow> dataframe \<Rightarrow> exn + dataframe" where
  "drop_total_rows [] df = Inr df"
| "drop_total_rows (col # cols) df =
     (case getitem df col of
        Inl e \<Rightarrow> Inl e
      | Inr Frame \<Rightarrow> Inl AttributeError
      | Inr (Series dt vals) \<Rightarrow>
          if dt = Object
          then drop_total_rows cols (boolean_index (map (\<lambda>v. \<not> cell_matches v) vals) df)
          else drop_total_rows cols df)"

definition preprocess_df :: "dataframe \<Rightarrow> exn + dataframe" where
  "preprocess_df df0 =
     (let cols_to_drop = [c \<leftarrow> labels df0. is_total_label c];
          df = (if cols_to_drop \<noteq> [] then drop_columns cols_to_drop df0 else df0)
      in drop_total_rows (labels df) df)"

text \<open>
  What the filter is meant to compute: the columns that stay, a row projected on them, and
  the test that some object column of a row holds a marker.
\<close>

definition kept_columns :: "dataframe \<Rightarrow> (label \<times> dtype) list" where
  "kept_columns df = [c \<leftarrow> columns df. \<not> is_total_label (fst c)]"

definition project_row :: "dataframe \<Rightarrow> cell list \<Rightarrow> cell list" where
  "project_row df r = map snd [p \<leftarrow> zip (columns df) r. \<not> is_total_label (fst (fst p))]"

definition total_row :: "(label \<times> dtype) list \<Rightarrow> cell list \<Rightarrow> bool" where
  "total_row cols r =
     list_ex (\<lambda>i. snd (cols ! i) = Object \<and> cell_matches (r ! i)) [0..<length cols]"

definition column_pass :: "dataframe \<Rightarrow> dataframe" where
  "column_pass df0 =
     (if [c \<leftarrow> labels df0. is_total_label c] \<noteq> []
      then drop_columns [c \<leftarrow> labels df0. is_total_label c] df0 else df0)"

section \<open>Summing the amount column\<close>

text \<open>
  \<open>pd.to_numeric(\<dots>, errors='coerce')\<close> keeps a number, turns a missing cell and a text
  that is no number into NaN (\<open>None\<close>), and parses the other texts. Which texts are numbers,
  and which number each is (an integer or a float), is the parser of pandas: it is a
  parameter of the model. The result is a series of dtype int64 when every value is an
  integer (a column of a float dtype is returned as it is), and of dtype float64 otherwise.
  \<open>Series.sum()\<close> skips NaN and is zero on an empty series; on a series of dtype int64 it
  adds 64-bit integers, so the sum wraps around, and on a series of dtype float64 it adds
  floats.
\<close>

fun coerce :: "(pystr \<Rightarrow> number option) \<Rightarrow> cell \<Rightarrow> number option" where
  "coerce parse (IntCell n) = Some (IntNum n)"
| "coerce parse (FloatCell x) = Some (FloatNum x)"
| "coerce parse (Text s) = parse s"
| "coerce parse Missing = None"

fun is_int :: "number option \<Rightarrow> bool" where
  "is_int (Some (IntNum n)) = True"
| "is_int (Some (FloatNum x)) = False"
| "is_int None = False"

definition to_numeric ::
  "(pystr \<Rightarrow> number option) \<Rightarrow> dtype \<Rightarrow> cell list \<Rightarrow> dtype \<times> number option list" where
  "to_numeric parse dt vals =
     (let nums = map (coerce parse) vals
      in (if dt \<noteq> Float64 \<and> list_all is_int nums then Int64 else Float64, nums))"

fun int64_values :: "number option list \<Rightarrow> 64 word list" where
  "int64_values [] = []"
| "int64_values (Some (IntNum n) # vs) = n # int64_values vs"
| "int64_values (Some (FloatNum x) # vs) = int64_values vs"
| "int64_values (None # vs) = int64_values vs"

fun float_values :: "number option list \<Rightarrow> real list" where
  "float_values [] = []"
| "float_values (Some x # vs) = to_float x # float_values vs"
| "float_values (None # vs) = float_values vs"

definition series_sum :: "dtype \<Rightarrow> number option list \<Rightarrow> number" where
  "series_sum dt nums =
     (if dt = Int64 then IntNum (sum_list (int64_values nums))
      else FloatNum (sum_list (float_values nums)))"

section \<open>The worker\<close>

text \<open>
  The file system is a snapshot: a directory has a path and the two listings
  \<open>Path(directory).glob("*.xlsx")\<close> and \<open>glob("*.csv")\<close>, each of which may raise; a file has
  a name and what the pandas reader returns for it, a table or an exception. A delimited
  file has one outcome for each of the two encodings.
\<close>

record xlsx_file =
  xlsx_name :: pystr
  read_excel :: "exn + dataframe"

record csv_file =
  csv_name :: pystr
  read_csv_utf8 :: "exn + dataframe"
  read_csv_gbk :: "exn + dataframe"

record folder =
  path :: pystr
  glob_xlsx :: "exn + xlsx_file list"
  glob_csv :: "exn + csv_file list"

record worker =
  directories :: "folder list"
  amount_column :: pystr
  custom_headers :: "pystr list option"

record file_result =
  directory :: pystr
  filename :: pystr
  monthly_card :: pystr
  amount :: real

record summary =
  total_files :: nat
  total_amount :: real

datatype signal =
  progress_updated pystr
| file_result_ready file_result
| finished_analysis summary
| error_occurred exn

text \<open>
  The state of \<open>run\<close>: the two accumulators (the grand total is a number of the kind that
  the additions so far have produced), the signals emitted so far (oldest first), the
  failures printed so far, and the number of times \<open>is_running\<close> has been read. \<open>stop()\<close>
  is called from another thread; a schedule \<open>Some k\<close> says that the first \<open>k\<close> reads of the
  flag see \<open>True\<close> and every later read sees \<open>False\<close>, \<open>None\<close> that \<open>stop()\<close> is never called.
\<close>

record run_state =
  polls :: nat
  total_amount_all :: number
  total_files_all :: nat
  emitted :: "signal list"
  printed :: "(pystr \<times> exn) list"

definition is_running :: "nat option \<Rightarrow> nat \<Rightarrow> bool" where
  "is_running stop_at n = (case stop_at of None \<Rightarrow> True | Some k \<Rightarrow> n < k)"

definition analysing :: pystr where
  "analysing = [27491, 22312, 20998, 26512, 30446, 24405, 58, 32]"

text \<open>
  The body of the two \<open>try\<close> blocks after the file is read: the header override, the filter,
  and the sum of the amount column when it is there.
\<close>

definition set_headers :: "pystr list option \<Rightarrow> dataframe \<Rightarrow> dataframe" where
  "set_headers hs df =
     (case hs of
        None \<Rightarrow> df
      | Some h \<Rightarrow>
          if length h = length (columns df)
          then df\<lparr>columns := zip (map StrLabel h) (map snd (columns df))\<rparr>
          else df)"

definition load_table :: "worker \<Rightarrow> dataframe \<Rightarrow> exn + dataframe" where
  "load_table w df0 = preprocess_df (set_headers (custom_headers w) df0)"

definition file_total ::
  "(pystr \<Rightarrow> number option) \<Rightarrow> worker \<Rightarrow> dataframe \<Rightarrow> exn + number option" where
  "file_total parse w df =
     (if StrLabel (amount_column w) \<in> set (labels df)
      then (case getitem df (StrLabel (amount_column w)) of
              Inl e \<Rightarrow> Inl e
            | Inr Frame \<Rightarrow> Inl TypeError
            | Inr (Series dt vals) \<Rightarrow>
                Inr (Some (case to_numeric parse dt vals of (dt', nums) \<Rightarrow> series_sum dt' nums)))
      else Inr None)"

text \<open>
  The outcome of a file is an exception, nothing, or the emitted result together with
  \<open>file_total\<close>, the number that line 133 and line 168 add to the grand total; the
  emitted amount is \<open>float(file_total)\<close>.
\<close>

definition analyse ::
  "(pystr \<Rightarrow> number option) \<Rightarrow> worker \<Rightarrow> pystr \<Rightarrow> pystr \<Rightarrow> exn + dataframe \<Rightarrow>
   exn + (file_result \<times> number) option" where
  "analyse parse w d name rd =
     (case rd of
        Inl e \<Rightarrow> Inl e
      | Inr df0 \<Rightarrow>
          (case load_table w df0 of
             Inl e \<Rightarrow> Inl e
           | Inr df \<Rightarrow>
               (case file_total parse w df of
                  Inl e \<Rightarrow> Inl e
                | Inr None \<Rightarrow> Inr None
                | Inr (Some t) \<Rightarrow>
                    Inr (Some (\<lparr>directory = d, filename = name,
                                monthly_card = extract_monthly_card name,
                                amount = to_float t\<rparr>, t)))))"

text \<open>
  \<open>except Exception\<close> of one file: a failure is printed and nothing else changes; a file
  without the amount column changes nothing; otherwise the result is emitted and counted.
\<close>

definition settle ::
  "pystr \<Rightarrow> exn + (file_result \<times> number) option \<Rightarrow> run_state \<Rightarrow> run_state" where
  "settle name out st =
     (case out of
        Inl e \<Rightarrow> st\<lparr>printed := printed st @ [(name, e)]\<rparr>
      | Inr None \<Rightarrow> st
      | Inr (Some (r, t)) \<Rightarrow>
          st\<lparr>emitted := emitted st @ [file_result_ready r],
             total_amount_all := add_number (total_amount_all st) t,
             total_files_all := total_files_all st + 1\<rparr>)"

definition read_csv :: "csv_file \<Rightarrow> exn + dataframe" where
  "read_csv f =
     (if read_csv_utf8 f = Inl UnicodeDecodeError then read_csv_gbk f else read_csv_utf8 f)"

fun xlsx_loop ::
  "(pystr \<Rightarrow> number option) \<Rightarrow> nat option \<Rightarrow> worker \<Rightarrow> pystr \<Rightarrow> xlsx_file list \<Rightarrow>
   run_state \<Rightarrow> run_state" where
  "xlsx_loop parse stop_at w d [] st = st"
| "xlsx_loop parse stop_at w d (f # fs) st =
     (if \<not> is_running stop_at (polls st) then st\<lparr>polls := polls st + 1\<rparr>
      else xlsx_loop parse stop_at w d fs
             (settle (xlsx_name f) (analyse parse w d (xlsx_name f) (read_excel f))
                (st\<lparr>polls := polls st + 1\<rparr>)))"

fun csv_loop ::
  "(pystr \<Rightarrow> number option) \<Rightarrow> nat option \<Rightarrow> worker \<Rightarrow> pystr \<Rightarrow> csv_file list \<Rightarrow>
   run_state \<Rightarrow> run_state" where
  "csv_loop parse stop_at w d [] st = st"
| "csv_loop parse stop_at w d (f # fs) st =
     (if \<not> is_running stop_at (polls st) then st\<lparr>polls := polls st + 1\<rparr>
      else csv_loop parse stop_at w d fs
             (settle (csv_name f) (analyse parse w d (csv_name f) (read_csv f))
                (st\<lparr>polls := polls st + 1\<rparr>)))"

text \<open>
  The loop over the directories. An exception of a listing is outside the two \<open>try\<close> blocks
  of the files: it leaves the loop with the state reached. After a \<open>break\<close> of the first
  inner loop the second listing is still evaluated.
\<close>

fun dir_loop ::
  "(pystr \<Rightarrow> number option) \<Rightarrow> nat option \<Rightarrow> worker \<Rightarrow> folder list \<Rightarrow>
   run_state \<Rightarrow> (exn \<times> run_state) + run_state" where
  "dir_loop parse stop_at w [] st = Inr st"
| "dir_loop parse stop_at w (d # ds) st =
     (if \<not> is_running stop_at (polls st) then Inr (st\<lparr>polls := polls st + 1\<rparr>)
      else
        (let st1 = st\<lparr>polls := polls st + 1,
                       emitted := emitted st @ [progress_updated (analysing @ path d)]\<rparr>
         in case glob_xlsx d of
              Inl e \<Rightarrow> Inl (e, st1)
            | Inr xs \<Rightarrow>
                (let st2 = xlsx_loop parse stop_at w (path d) xs st1
                 in case glob_csv d of
                      Inl e \<Rightarrow> Inl (e, st2)
                    | Inr cs \<Rightarrow>
                        dir_loop parse stop_at w ds (csv_loop parse stop_at w (path d) cs st2))))"

definition initial :: run_state where
  "initial =
     \<lparr>polls = 0, total_amount_all = IntNum 0, total_files_all = 0, emitted = [], printed = []\<rparr>"

definition run :: "(pystr \<Rightarrow> number option) \<Rightarrow> nat option \<Rightarrow> worker \<Rightarrow> signal list" where
  "run parse stop_at w =
     (case dir_loop parse stop_at w (directories w) initial of
        Inr st \<Rightarrow>
          emitted st @
          [finished_analysis
             \<lparr>total_files = total_files_all st, total_amount = to_float (total_amount_all st)\<rparr>]
      | Inl (e, st) \<Rightarrow> emitted st @ [error_occurred e])"

section \<open>What a run is meant to produce\<close>

text \<open>
  What one file adds to the notifications and to the grand total, the FileResults among a
  list of notifications, and an invariant of the accumulators: the count is the number of
  results emitted so far, and the grand total is still the initial zero while there is none.
\<close>

fun signals_of :: "exn + (file_result \<times> number) option \<Rightarrow> signal list" where
  "signals_of (Inr (Some (r, t))) = [file_result_ready r]"
| "signals_of (Inr None) = []"
| "signals_of (Inl e) = []"

fun totals_of :: "exn + (file_result \<times> number) option \<Rightarrow> number list" where
  "totals_of (Inr (Some (r, t))) = [t]"
| "totals_of (Inr None) = []"
| "totals_of (Inl e) = []"

fun results_in :: "signal list \<Rightarrow> file_result list" where
  "results_in [] = []"
| "results_in (file_result_ready r # xs) = r # results_in xs"
| "results_in (progress_updated m # xs) = results_in xs"
| "results_in (finished_analysis s # xs) = results_in xs"
| "results_in (error_occurred e # xs) = results_in xs"

definition tallied :: "run_state \<Rightarrow> bool" where
  "tallied st =
     (total_files_all st = length (results_in (emitted st)) \<and>
      (results_in (emitted st) = [] \<longrightarrow> total_amount_all st = IntNum 0))"

text \<open>
  Bookkeeping for the schedule. Of a list of pending reads of the flag, \<open>admitted\<close> keeps
  those that still see \<open>True\<close> when the counter stands at \<open>p\<close>; \<open>advanced\<close> relates the
  counter before and after \<open>n\<close> pending reads: all of them were made, or the flag was seen
  \<open>False\<close> and every later read sees \<open>False\<close> too.
\<close>

definition admitted :: "nat option \<Rightarrow> nat \<Rightarrow> 'a list \<Rightarrow> 'a list" where
  "admitted stop_at p xs = (case stop_at of None \<Rightarrow> xs | Some k \<Rightarrow> take (k - p) xs)"

definition advanced :: "nat option \<Rightarrow> nat \<Rightarrow> nat \<Rightarrow> nat \<Rightarrow> bool" where
  "advanced stop_at n p p' =
     (case stop_at of
        None \<Rightarrow> p' = p + n
      | Some k \<Rightarrow> if p + n \<le> k then p' = p + n else k < p')"

text \<open>The common shape of the two inner loops, over the names and outcomes of the files.\<close>

fun file_loop ::
  "nat option \<Rightarrow> (pystr \<times> (exn + (file_result \<times> number) option)) list \<Rightarrow> run_state \<Rightarrow>
   run_state" where
  "file_loop stop_at [] st = st"
| "file_loop stop_at (no # os) st =
     (if \<not> is_running stop_at (polls st) then st\<lparr>polls := polls st + 1\<rparr>
      else file_loop stop_at os (settle (fst no) (snd no) (st\<lparr>polls := polls st + 1\<rparr>)))"

text \<open>
  The reads of the flag of a run whose listings succeed, in order: one for each directory,
  followed by one for each of its spreadsheet files and then one for each of its delimited
  files. Each read is given with the signals that are emitted when it sees \<open>True\<close>.
\<close>

definition listable :: "folder \<Rightarrow> bool" where
  "listable d =
     (case glob_xlsx d of Inl e \<Rightarrow> False
      | Inr xs \<Rightarrow> (case glob_csv d of Inl e \<Rightarrow> False | Inr cs \<Rightarrow> True))"

definition xlsx_outcomes ::
  "(pystr \<Rightarrow> number option) \<Rightarrow> worker \<Rightarrow> folder \<Rightarrow>
   (exn + (file_result \<times> number) option) list" where
  "xlsx_outcomes parse w d =
     (case glob_xlsx d of
        Inl e \<Rightarrow> []
      | Inr xs \<Rightarrow> map (\<lambda>f. analyse parse w (path d) (xlsx_name f) (read_excel f)) xs)"

definition csv_outcomes ::
  "(pystr \<Rightarrow> number option) \<Rightarrow> worker \<Rightarrow> folder \<Rightarrow>
   (exn + (file_result \<times> number) option) list" where
  "csv_outcomes parse w d =
     (case glob_csv d of
        Inl e \<Rightarrow> []
      | Inr cs \<Rightarrow> map (\<lambda>f. analyse parse w (path d) (csv_name f) (read_csv f)) cs)"

definition checkpoints_of ::
  "(pystr \<Rightarrow> number option) \<Rightarrow> worker \<Rightarrow> folder \<Rightarrow> signal list list" where
  "checkpoints_of parse w d =
     [progress_updated (analysing @ path d)] #
     map signals_of (xlsx_outcomes parse w d @ csv_outcomes parse w d)"

definition checkpoints ::
  "(pystr \<Rightarrow> number option) \<Rightarrow> worker \<Rightarrow> folder list \<Rightarrow> signal list list" where
  "checkpoints parse w ds = concat (map (checkpoints_of parse w) ds)"

text \<open>
  The numbers added to the grand total, read by read as in \<open>checkpoints\<close>: none at the
  read before a directory, the \<open>file_total\<close> of the file at the read before a file that
  yields a result. \<open>grand_total\<close> is the accumulation of lines 98, 133 and 168, and
  \<open>no_wrap\<close> says that no addition of two integers in it leaves the signed 64-bit range.
\<close>

definition subtotals_of ::
  "(pystr \<Rightarrow> number option) \<Rightarrow> worker \<Rightarrow> folder \<Rightarrow> number list list" where
  "subtotals_of parse w d =
     [] # map totals_of (xlsx_outcomes parse w d @ csv_outcomes parse w d)"

definition subtotals ::
  "(pystr \<Rightarrow> number option) \<Rightarrow> worker \<Rightarrow> folder list \<Rightarrow> number list list" where
  "subtotals parse w ds = concat (map (subtotals_of parse w) ds)"

definition grand_total :: "number list \<Rightarrow> number" where
  "grand_total ts = foldl add_number (IntNum 0) ts"

fun fits :: "number \<Rightarrow> number \<Rightarrow> bool" where
  "fits (IntNum a) (IntNum b) = (- (2 ^ 63) \<le> sint a + sint b \<and> sint a + sint b < 2 ^ 63)"
| "fits (IntNum a) (FloatNum y) = True"
| "fits (FloatNum x) (IntNum b) = True"
| "fits (FloatNum x) (FloatNum y) = True"

fun no_wrap :: "number \<Rightarrow> number list \<Rightarrow> bool" where
  "no_wrap acc [] = True"
| "no_wrap acc (t # ts) = (fits acc t \<and> no_wrap (add_number acc t) ts)"

text \<open>
  The sum a claim speaks of: of the coerced cells of a column, each number as a float, NaN
  counting zero; and the exact sum of the integers among them.
\<close>

fun value_of :: "number option \<Rightarrow> real" where
  "value_of (Some x) = to_float x"
| "value_of None = 0"

fun int_value :: "number option \<Rightarrow> int" where
  "int_value (Some (IntNum n)) = sint n"
| "int_value (Some (FloatNum x)) = 0"
| "int_value None = 0"

text \<open>
  The column at position \<open>i\<close> of a table, coerced cell by cell; the test that it is summed
  as a column of integers; and what its sum is meant to be: the 64-bit integer congruent to
  the sum of its integers in that case, the sum of its numbers as floats otherwise.
\<close>

definition coerced ::
  "(pystr \<Rightarrow> number option) \<Rightarrow> dataframe \<Rightarrow> nat \<Rightarrow> number option list" where
  "coerced parse df i = map (\<lambda>r. coerce parse (r ! i)) (rows df)"

definition int_column ::
  "(pystr \<Rightarrow> number option) \<Rightarrow> dataframe \<Rightarrow> nat \<Rightarrow> bool" where
  "int_column parse df i =
     (snd (columns df ! i) \<noteq> Float64 \<and> list_all is_int (coerced parse df i))"

definition column_sum ::
  "(pystr \<Rightarrow> number option) \<Rightarrow> dataframe \<Rightarrow> nat \<Rightarrow> number" where
  "column_sum parse df i =
     (if int_column parse df i
      then IntNum (word_of_int (\<Sum>v\<leftarrow>coerced parse df i. int_value v))
      else FloatNum (\<Sum>v\<leftarrow>coerced parse df i. value_of v))"

text \<open>
  The order of the notifications of a run: progress and result notifications, every result
  after the progress notification of its own directory and before the next progress
  notification, and then one completion or failure that ends the list. The first argument
  is the latest progress message, if there is one. \<open>body\<close> is the same test for the
  part before the last notification, and \<open>only_results\<close> holds of result notifications
  alone.
\<close>

fun protocol :: "pystr option \<Rightarrow> signal list \<Rightarrow> bool" where
  "protocol cur [] = False"
| "protocol cur (progress_updated m # xs) = protocol (Some m) xs"
| "protocol cur (file_result_ready r # xs) =
     (cur = Some (analysing @ directory r) \<and> protocol cur xs)"
| "protocol cur (finished_analysis s # xs) = (xs = [])"
| "protocol cur (error_occurred e # xs) = (xs = [])"

fun is_terminal :: "signal \<Rightarrow> bool" where
  "is_terminal (finished_analysis s) = True"
| "is_terminal (error_occurred e) = True"
| "is_terminal (progress_updated m) = False"
| "is_terminal (file_result_ready r) = False"

fun body :: "pystr option \<Rightarrow> signal list \<Rightarrow> bool" where
  "body cur [] = True"
| "body cur (progress_updated m # xs) = body (Some m) xs"
| "body cur (file_result_ready r # xs) = (cur = Some (analysing @ directory r) \<and> body cur xs)"
| "body cur (finished_analysis s # xs) = False"
| "body cur (error_occurred e # xs) = False"

fun only_results :: "signal list \<Rightarrow> bool" where
  "only_results [] = True"
| "only_results (file_result_ready r # xs) = only_results xs"
| "only_results (progress_updated m # xs) = False"
| "only_results (finished_analysis s # xs) = False"
| "only_results (error_occurred e # xs) = False"

fun state_of :: "(exn \<times> run_state) + run_state \<Rightarrow> run_state" where
  "state_of (Inl (e, st)) = st"
| "state_of (Inr st) = st"


definition has_target :: "worker \<Rightarrow> exn + dataframe \<Rightarrow> bool" where
  "has_target w rd =
     (case rd of
        Inl e \<Rightarrow> False
      | Inr df0 \<Rightarrow>
          (case load_table w df0 of
             Inl e \<Rightarrow> False
           | Inr df \<Rightarrow> StrLabel (amount_column w) \<in> set (labels df)))"

text \<open>The maximal runs of decimal digits of a name, from left to right.\<close>

fun runs_from :: "pystr \<Rightarrow> pystr \<Rightarrow> pystr list" where
  "runs_from cur [] = (if cur = [] then [] else [cur])"
| "runs_from cur (c # cs) =
     (if re_digit c then runs_from (cur @ [c]) cs
      else (if cur = [] then [] else [cur]) @ runs_from [] cs)"

definition digit_runs :: "pystr \<Rightarrow> pystr list" where
  "digit_runs s = runs_from [] s"

section \<open>Example data\<close>

definition sample_table :: dataframe where
  "sample_table =
     \<lparr>columns = [(StrLabel (ascii ''name''), Object), (StrLabel heji, Float64),
                 (StrLabel (ascii ''amt''), Object), (StrLabel (ascii ''qty''), Float64)],
      rows = [[Text (ascii ''a''), FloatCell 1, IntCell 2, FloatCell 1],
              [Text (ascii ''x'' @ he_ji), FloatCell 3, IntCell 4, FloatCell 2],
              [Missing, FloatCell 5, Text (ascii ''n/a''), Missing],
              [Text (ascii ''b''), FloatCell 6, Text (ascii ''7.5''), FloatCell 3]]\<rparr>"

definition sample_filtered :: dataframe where
  "sample_filtered =
     \<lparr>columns = [(StrLabel (ascii ''name''), Object), (StrLabel (ascii ''amt''), Object),
                 (StrLabel (ascii ''qty''), Float64)],
      rows = [[Text (ascii ''a''), IntCell 2, FloatCell 1],
              [Missing, Text (ascii ''n/a''), Missing],
              [Text (ascii ''b''), Text (ascii ''7.5''), FloatCell 3]]\<rparr>"

text \<open>
  A parser that knows two numeric texts, some tables, files and directories, and three
  workers: one with the amount column \<open>amt\<close>, one whose second listing fails, and one
  whose override and amount column are the marker.
\<close>

definition sample_parse :: "pystr \<Rightarrow> number option" where
  "sample_parse s =
     (if s = ascii ''7.5'' then Some (FloatNum 7.5)
      else if s = ascii ''3'' then Some (IntNum 3) else None)"

definition plain_table :: dataframe where
  "plain_table =
     \<lparr>columns = [(StrLabel (ascii ''x''), Int64), (StrLabel (ascii ''y''), Float64),
                 (StrLabel (ascii ''z''), Object)],
      rows = [[IntCell 1, FloatCell 2, Text (ascii ''k'')]]\<rparr>"

definition amt_table :: dataframe where
  "amt_table =
     \<lparr>columns = [(StrLabel (ascii ''amt''), Float64)],
      rows = [[FloatCell 1], [Missing], [FloatCell 3]]\<rparr>"

definition shop_xlsx :: xlsx_file where
  "shop_xlsx = \<lparr>xlsx_name = ascii ''shop_2024010112.xlsx'', read_excel = Inr sample_table\<rparr>"

definition broken_xlsx :: xlsx_file where
  "broken_xlsx = \<lparr>xlsx_name = ascii ''broken.xlsx'', read_excel = Inl BadZipFile\<rparr>"

definition old_csv :: csv_file where
  "old_csv = \<lparr>csv_name = ascii ''old.csv'', read_csv_utf8 = Inl UnicodeDecodeError,
               read_csv_gbk = Inr plain_table\<rparr>"

definition amt_csv :: csv_file where
  "amt_csv = \<lparr>csv_name = ascii ''b.csv'', read_csv_utf8 = Inr amt_table,
               read_csv_gbk = Inl UnicodeDecodeError\<rparr>"

definition folder_a :: folder where
  "folder_a = \<lparr>path = ascii ''a'', glob_xlsx = Inr [shop_xlsx, broken_xlsx],
                glob_csv = Inr [old_csv]\<rparr>"

definition folder_b :: folder where
  "folder_b = \<lparr>path = ascii ''b'', glob_xlsx = Inr [], glob_csv = Inr [amt_csv]\<rparr>"

definition folder_c :: folder where
  "folder_c = \<lparr>path = ascii ''c'', glob_xlsx = Inr [], glob_csv = Inr []\<rparr>"

definition sample_worker :: worker where
  "sample_worker =
     \<lparr>directories = [folder_a, folder_b, folder_c], amount_column = ascii ''amt'',
      custom_headers = None\<rparr>"

definition shop_result :: file_result where
  "shop_result =
     \<lparr>directory = ascii ''a'', filename = ascii ''shop_2024010112.xlsx'',
      monthly_card = ascii ''2024010112'', amount = 9.5\<rparr>"

definition amt_result :: file_result where
  "amt_result =
     \<lparr>directory = ascii ''b'', filename = ascii ''b.csv'', monthly_card = [], amount = 4\<rparr>"

definition folder_bad :: folder where
  "folder_bad = \<lparr>path = ascii ''x'', glob_xlsx = Inr [shop_xlsx], glob_csv = Inl OSError\<rparr>"

definition failing_worker :: worker where
  "failing_worker =
     \<lparr>directories = [folder_bad, folder_b], amount_column = ascii ''amt'',
      custom_headers = None\<rparr>"

definition total_worker :: worker where
  "total_worker =
     \<lparr>directories = [folder_a, folder_b, folder_c], amount_column = heji,
      custom_headers = Some [heji, ascii ''amt'', ascii ''n'']\<rparr>"

definition renamed_table :: dataframe where
  "renamed_table =
     \<lparr>columns = [(StrLabel heji, Int64), (StrLabel (ascii ''amt''), Float64),
                 (StrLabel (ascii ''n''), Object)],
      rows = [[IntCell 1, FloatCell 2, Text (ascii ''k'')]]\<rparr>"

definition renamed_filtered :: dataframe where
  "renamed_filtered =
     \<lparr>columns = [(StrLabel (ascii ''amt''), Float64), (StrLabel (ascii ''n''), Object)],
      rows = [[FloatCell 2, Text (ascii ''k'')]]\<rparr>"











text \<open>
  A file of two columns, and the table that the override \<open>['amt', 'amt']\<close> makes of it:
  no label and no cell of it holds a marker.
\<close>

definition pair_table :: dataframe where
  "pair_table =
     \<lparr>columns = [(StrLabel (ascii ''p''), Float64), (StrLabel (ascii ''q''), Float64)],
      rows = [[FloatCell 1, FloatCell 2]]\<rparr>"

definition repeated_table :: dataframe where
  "repeated_table =
     \<lparr>columns = [(StrLabel (ascii ''amt''), Float64), (StrLabel (ascii ''amt''), Float64)],
      rows = [[FloatCell 1, FloatCell 2]]\<rparr>"

definition repeated_worker :: worker where
  "repeated_worker =
     \<lparr>directories = [], amount_column = ascii ''amt'',
      custom_headers = Some [ascii ''amt'', ascii ''amt'']\<rparr>"

section \<open>The identifier of a file\<close>

lemma window10_0: "window10 s 0 = (match_d10 s \<noteq> None)"
  by (simp add: window10_def match_d10_def)

lemma window10_Suc: "window10 (c # cs) (Suc i) = window10 cs i"
  by (simp add: window10_def add.commute)

lemma search_d10_None: "search_d10 s = None \<longleftrightarrow> (\<forall>i. \<not> window10 s i)"
proof (induction s)
  case Nil
  show ?case by (simp add: window10_def)
next
  case (Cons c cs)
  show ?case
  proof (cases "match_d10 (c # cs)")
    case None
    have "(\<forall>i. \<not> window10 (c # cs) i) \<longleftrightarrow> (\<forall>i. \<not> window10 cs i)"
    proof
      assume a: "\<forall>i. \<not> window10 (c # cs) i"
      show "\<forall>i. \<not> window10 cs i"
      proof
        fix i
        from a have "\<not> window10 (c # cs) (Suc i)" by blast
        then show "\<not> window10 cs i" by (simp add: window10_Suc)
      qed
    next
      assume a: "\<forall>i. \<not> window10 cs i"
      show "\<forall>i. \<not> window10 (c # cs) i"
      proof
        fix i
        show "\<not> window10 (c # cs) i"
        proof (cases i)
          case 0
          with None show ?thesis by (simp add: window10_0)
        next
          case (Suc j)
          with a show ?thesis by (simp add: window10_Suc)
        qed
      qed
    qed
    with None Cons.IH show ?thesis by simp
  next
    case (Some m)
    then have "window10 (c # cs) 0" by (simp add: window10_0)
    with Some show ?thesis by auto
  qed
qed

lemma search_d10_Some:
  "search_d10 s = Some m \<Longrightarrow>
     \<exists>i. window10 s i \<and> (\<forall>j<i. \<not> window10 s j) \<and> m = take 10 (drop i s)"
proof (induction s)
  case Nil
  then show ?case by simp
next
  case (Cons c cs)
  show ?case
  proof (cases "match_d10 (c # cs)")
    case None
    with Cons.prems have "search_d10 cs = Some m" by simp
    from Cons.IH [OF this] obtain i where
      i: "window10 cs i" "\<forall>j<i. \<not> window10 cs j" "m = take 10 (drop i cs)"
      by blast
    have "\<forall>j<Suc i. \<not> window10 (c # cs) j"
    proof (intro allI impI)
      fix j assume "j < Suc i"
      show "\<not> window10 (c # cs) j"
      proof (cases j)
        case 0
        with None show ?thesis by (simp add: window10_0)
      next
        case (Suc k)
        with \<open>j < Suc i\<close> i(2) show ?thesis by (simp add: window10_Suc)
      qed
    qed
    with i(1,3) have
      "window10 (c # cs) (Suc i) \<and> (\<forall>j<Suc i. \<not> window10 (c # cs) j) \<and>
       m = take 10 (drop (Suc i) (c # cs))"
      by (simp add: window10_Suc)
    then show ?thesis by blast
  next
    case (Some m')
    with Cons.prems have "m = m'" by simp
    with Some have "m = take 10 (c # cs)"
      by (auto simp: match_d10_def split: if_splits)
    moreover from Some have "window10 (c # cs) 0" by (simp add: window10_0)
    ultimately have
      "window10 (c # cs) 0 \<and> (\<forall>j<0. \<not> window10 (c # cs) j) \<and> m = take 10 (drop 0 (c # cs))"
      by simp
    then show ?thesis by blast
  qed
qed

text \<open>
  C5, as amended. The identifier is the leftmost window of ten consecutive decimal digits of
  the file name: the ten code points at the least position where ten digits start, whether
  or not more digits follow them or another run of ten comes later. It is the empty string
  exactly when no ten consecutive digits occur anywhere in the name.
\<close>

theorem extract_monthly_card_leftmost:
  "(\<exists>i. window10 name i \<and> (\<forall>j<i. \<not> window10 name j) \<and>
        extract_monthly_card name = take 10 (drop i name)) \<or>
   ((\<forall>i. \<not> window10 name i) \<and> extract_monthly_card name = [])"
proof (cases "search_d10 name")
  case None
  moreover from None have "\<forall>i. \<not> window10 name i"
    by (simp add: search_d10_None)
  ultimately show ?thesis
    by (simp add: extract_monthly_card_def)
next
  case (Some m)
  from search_d10_Some [OF Some] obtain i where
    "window10 name i" "\<forall>j<i. \<not> window10 name j" "m = take 10 (drop i name)"
    by blast
  with Some show ?thesis
    by (auto simp: extract_monthly_card_def)
qed

lemma re_digit_ascii: "c < 128 \<Longrightarrow> re_digit c = (48 \<le> c \<and> c \<le> 57)"
  by (auto simp: re_digit_def decimal_blocks_def)

theorem extract_monthly_card_leftmost_witness:
  "window10 (ascii ''report_202401011234_b.csv'') 7 \<and>
   \<not> window10 (ascii ''report_202401011234_b.csv'') 6 \<and>
   \<not> window10 (ascii ''report_202401011234_b.csv'') 0 \<and>
   extract_monthly_card (ascii ''report_202401011234_b.csv'') = ascii ''2024010112'' \<and>
   extract_monthly_card (ascii ''report_2024-01.csv'') = []"
proof -
  have "window10 (ascii ''report_202401011234_b.csv'') 7 \<and>
   \<not> window10 (ascii ''report_202401011234_b.csv'') 6 \<and>
   \<not> window10 (ascii ''report_202401011234_b.csv'') 0 \<and>
   extract_monthly_card (ascii ''report_202401011234_b.csv'') = ascii ''2024010112'' \<and>
   extract_monthly_card (ascii ''report_2024-01.csv'') = []"
    by (simp add: extract_monthly_card_def match_d10_def window10_def ascii_def re_digit_ascii)
  with extract_monthly_card_leftmost [of "ascii ''report_202401011234_b.csv''"]
  show ?thesis by simp
qed

text \<open>
  C5 as stated fails in two ways. A name that contains the digit run 2024010112 after an
  earlier run of ten digits yields the earlier run; and a name whose only digit run has
  twelve digits, so that it has no run of exactly ten, yields the first ten of them and not
  the empty string.
\<close>

theorem extract_monthly_card_counterexample:
  "extract_monthly_card (ascii ''1234567890_'' @ ascii ''2024010112'' @ ascii ''.csv'')
     \<noteq> ascii ''2024010112'' \<and>
   [r \<leftarrow> digit_runs (ascii ''202401011234.csv''). length r = 10] = [] \<and>
   extract_monthly_card (ascii ''202401011234.csv'') \<noteq> []"
  by (simp add: extract_monthly_card_def match_d10_def digit_runs_def ascii_def re_digit_ascii)

section \<open>The summary filter is a filter\<close>

lemma filter_eq_upt: "i < n \<Longrightarrow> [j \<leftarrow> [0..<n]. j = i] = [i]"
  by (induction n) (auto simp: less_Suc_eq)

lemma get_loc_nth:
  assumes "distinct (labels df)" "i < length (columns df)"
  shows "get_loc df (fst (columns df ! i)) = [i]"
proof -
  have "[j \<leftarrow> [0..<length (columns df)]. fst (columns df ! j) = fst (columns df ! i)]
        = [j \<leftarrow> [0..<length (columns df)]. j = i]"
  proof (rule filter_cong [OF refl])
    fix j assume "j \<in> set [0..<length (columns df)]"
    then have j: "j < length (labels df)" by (simp add: labels_def)
    from assms(2) have i: "i < length (labels df)" by (simp add: labels_def)
    from nth_eq_iff_index_eq [OF assms(1) j i]
    show "(fst (columns df ! j) = fst (columns df ! i)) = (j = i)"
      using i j by (simp add: labels_def)
  qed
  with assms(2) show ?thesis by (simp add: get_loc_def filter_eq_upt)
qed

lemma getitem_nth:
  "distinct (labels df) \<Longrightarrow> i < length (columns df) \<Longrightarrow>
   getitem df (fst (columns df ! i)) =
     Inr (Series (snd (columns df ! i)) (map (\<lambda>r. r ! i) (rows df)))"
  by (simp add: getitem_def get_loc_nth)

lemma mask_filter: "map snd [p \<leftarrow> zip (map f xs) xs. fst p] = filter f xs"
  by (induction xs) auto

lemma boolean_index_mask:
  "boolean_index (map (\<lambda>v. \<not> cell_matches v) (map (\<lambda>r. r ! i) (rows df))) df
     = df\<lparr>rows := [r \<leftarrow> rows df. \<not> cell_matches (r ! i)]\<rparr>"
  using mask_filter [of "\<lambda>r. \<not> cell_matches (r ! i)" "rows df"]
  by (simp add: boolean_index_def comp_def)

lemma drop_total_rows_positions:
  "distinct (labels df) \<Longrightarrow> \<forall>i\<in>set ps. i < length (columns df) \<Longrightarrow>
   drop_total_rows (map (\<lambda>i. fst (columns df ! i)) ps) df =
     Inr (df\<lparr>rows := [r \<leftarrow> rows df.
            \<not> list_ex (\<lambda>i. snd (columns df ! i) = Object \<and> cell_matches (r ! i)) ps]\<rparr>)"
proof (induction ps arbitrary: df)
  case Nil
  show ?case by simp
next
  case (Cons p ps)
  let ?df' = "df\<lparr>rows := [r \<leftarrow> rows df. \<not> cell_matches (r ! p)]\<rparr>"
  from Cons.prems have p: "p < length (columns df)" by simp
  have g: "getitem df (fst (columns df ! p)) =
     Inr (Series (snd (columns df ! p)) (map (\<lambda>r. r ! p) (rows df)))"
    by (rule getitem_nth [OF Cons.prems(1) p])
  show ?case
  proof (cases "snd (columns df ! p) = Object")
    case True
    have d': "distinct (labels ?df')" using Cons.prems(1) by (simp add: labels_def)
    have b': "\<forall>i\<in>set ps. i < length (columns ?df')" using Cons.prems(2) by simp
    have step: "drop_total_rows (map (\<lambda>i. fst (columns df ! i)) (p # ps)) df =
        drop_total_rows (map (\<lambda>i. fst (columns df ! i)) ps) ?df'"
      using True g by (simp add: boolean_index_mask del: map_map)
    from Cons.IH [OF d' b'] have
      "drop_total_rows (map (\<lambda>i. fst (columns df ! i)) ps) ?df' =
        Inr (df\<lparr>rows := [r \<leftarrow> rows df. \<not> list_ex (\<lambda>i. snd (columns df ! i) = Object \<and>
             cell_matches (r ! i)) (p # ps)]\<rparr>)"
      using True by (simp add: conj_commute cong: conj_cong)
    with step show ?thesis by simp
  next
    case False
    from Cons.prems have "\<forall>i\<in>set ps. i < length (columns df)" by simp
    from Cons.IH [OF Cons.prems(1) this] False g show ?thesis by simp
  qed
qed

lemma drop_total_rows_distinct:
  assumes "distinct (labels df)"
  shows "drop_total_rows (labels df) df =
     Inr (df\<lparr>rows := [r \<leftarrow> rows df. \<not> total_row (columns df) r]\<rparr>)"
proof -
  have "map (\<lambda>i. fst (columns df ! i)) [0..<length (columns df)] = labels df"
    unfolding labels_def by (rule nth_equalityI) simp_all
  with drop_total_rows_positions [OF assms, of "[0..<length (columns df)]"]
  show ?thesis by (simp add: total_row_def)
qed


lemma preprocess_df_passes:
  "preprocess_df df0 = drop_total_rows (labels (column_pass df0)) (column_pass df0)"
  by (simp add: preprocess_df_def column_pass_def Let_def)

lemma columns_column_pass: "columns (column_pass df) = kept_columns df"
proof (cases "[c \<leftarrow> labels df. is_total_label c] = []")
  case True
  then have "\<forall>c\<in>set (columns df). \<not> is_total_label (fst c)"
    by (auto simp: filter_empty_conv labels_def)
  then have "kept_columns df = columns df"
    by (simp add: kept_columns_def)
  with True show ?thesis by (simp add: column_pass_def)
next
  case False
  have "[c \<leftarrow> columns df. fst c \<notin> set [c \<leftarrow> labels df. is_total_label c]] = kept_columns df"
    unfolding kept_columns_def
    by (rule filter_cong) (auto simp: labels_def)
  with False show ?thesis by (simp add: column_pass_def drop_columns_def)
qed

lemma rows_column_pass:
  assumes "rectangular df"
  shows "rows (column_pass df) = map (project_row df) (rows df)"
proof (cases "[c \<leftarrow> labels df. is_total_label c] = []")
  case True
  then have none: "\<forall>c\<in>set (columns df). \<not> is_total_label (fst c)"
    by (auto simp: filter_empty_conv labels_def)
  have "map (project_row df) (rows df) = rows df"
  proof (rule map_idI)
    fix r assume r: "r \<in> set (rows df)"
    with assms have len: "length r = length (columns df)"
      by (simp add: rectangular_def list_all_iff)
    have "[p \<leftarrow> zip (columns df) r. \<not> is_total_label (fst (fst p))] = zip (columns df) r"
      using none by (auto simp: filter_id_conv dest!: set_zip_leftD)
    with len show "project_row df r = r"
      by (simp add: project_row_def)
  qed
  with True show ?thesis by (simp add: column_pass_def)
next
  case False
  have eq: "\<And>r. map snd [p \<leftarrow> zip (columns df) r.
                  fst (fst p) \<notin> set [c \<leftarrow> labels df. is_total_label c]] = project_row df r"
    unfolding project_row_def
    by (rule arg_cong [where f = "map snd"], rule filter_cong)
       (force simp: labels_def dest!: set_zip_leftD)+
  from False have "rows (column_pass df) =
      map (\<lambda>r. map snd [p \<leftarrow> zip (columns df) r.
                  fst (fst p) \<notin> set [c \<leftarrow> labels df. is_total_label c]]) (rows df)"
    by (simp add: column_pass_def drop_columns_def)
  also have "\<dots> = map (project_row df) (rows df)"
    by (simp only: eq)
  finally show ?thesis .
qed

lemma getitem_repeated:
  assumes "i < j" "j < length (columns df)"
    and "fst (columns df ! i) = c" "fst (columns df ! j) = c"
  shows "getitem df c = Inr Frame"
proof -
  from assms have "i \<in> set (get_loc df c)" "j \<in> set (get_loc df c)"
    by (simp_all add: get_loc_def)
  with assms(1) show ?thesis
    by (cases "get_loc df c" rule: remdups_adj.cases) (auto simp: getitem_def)
qed

lemma getitem_present: "c \<in> set (labels df) \<Longrightarrow> getitem df c \<noteq> Inl e"
proof -
  assume "c \<in> set (labels df)"
  then obtain i where "i < length (columns df)" "fst (columns df ! i) = c"
    by (auto simp: labels_def in_set_conv_nth)
  then have "i \<in> set (get_loc df c)" by (simp add: get_loc_def)
  then show ?thesis
    by (cases "get_loc df c" rule: remdups_adj.cases) (auto simp: getitem_def)
qed

lemma getitem_Frame_rows:
  "getitem (df\<lparr>rows := rs\<rparr>) c = Inr Frame \<longleftrightarrow> getitem df c = Inr Frame"
  by (cases "get_loc df c" rule: remdups_adj.cases) (auto simp: getitem_def get_loc_def)

lemma drop_total_rows_repeated:
  "set cols \<subseteq> set (labels df) \<Longrightarrow> c \<in> set cols \<Longrightarrow> getitem df c = Inr Frame \<Longrightarrow>
   drop_total_rows cols df = Inl AttributeError"
proof (induction cols arbitrary: df)
  case Nil
  then show ?case by simp
next
  case (Cons a cols)
  from Cons.prems(1) have a: "a \<in> set (labels df)" by simp
  show ?case
  proof (cases "getitem df a")
    case (Inl e)
    with getitem_present [OF a, of e] show ?thesis by simp
  next
    case (Inr sel)
    show ?thesis
    proof (cases sel)
      case Frame
      with Inr show ?thesis by simp
    next
      case (Series dt vals)
      with Inr Cons.prems(3) have "a \<noteq> c" by auto
      with Cons.prems(2) have c: "c \<in> set cols" by simp
      let ?df' = "boolean_index (map (\<lambda>v. \<not> cell_matches v) vals) df"
      have l': "set cols \<subseteq> set (labels ?df')"
        using Cons.prems(1) by (simp add: boolean_index_def labels_def)
      have f': "getitem ?df' c = Inr Frame"
        using Cons.prems(3) by (simp add: boolean_index_def getitem_Frame_rows)
      from Cons.prems(1) have l: "set cols \<subseteq> set (labels df)" by simp
      from Cons.IH [OF l' c f'] Cons.IH [OF l c Cons.prems(3)] Inr Series
      show ?thesis by simp
    qed
  qed
qed

lemma drop_total_rows_not_distinct:
  assumes "\<not> distinct (labels df)"
  shows "drop_total_rows (labels df) df = Inl AttributeError"
proof -
  from assms obtain i j where ij: "i < j" "j < length (labels df)" "labels df ! i = labels df ! j"
    by (metis distinct_conv_nth nat_neq_iff)
  then have "getitem df (labels df ! j) = Inr Frame"
    by (intro getitem_repeated [of i j]) (simp_all add: labels_def)
  moreover from ij have "labels df ! j \<in> set (labels df)" by simp
  ultimately show ?thesis
    by (intro drop_total_rows_repeated [of _ _ "labels df ! j"]) simp_all
qed

lemma preprocess_df_cases:
  "preprocess_df df =
     (if distinct (map fst (kept_columns df))
      then Inr ((column_pass df)\<lparr>rows := [r \<leftarrow> rows (column_pass df). \<not> total_row (kept_columns df) r]\<rparr>)
      else Inl AttributeError)"
  using drop_total_rows_distinct [of "column_pass df"]
    drop_total_rows_not_distinct [of "column_pass df"]
  by (simp add: preprocess_df_passes labels_def columns_column_pass)


lemma kept_columns_idem:
  "columns df' = kept_columns df \<Longrightarrow> [c \<leftarrow> labels df'. is_total_label c] = []"
  by (simp add: labels_def kept_columns_def filter_empty_conv)

text \<open>
  On a table whose remaining labels are pairwise distinct (every table a pandas reader
  returns, and every table renamed with distinct names), the filter removes exactly the
  columns whose stripped label is one of the two markers, and then exactly the rows in which
  a remaining column of dtype object holds a text containing a marker; the cells of the
  other columns are never looked at, and the columns and rows that stay keep their order.
\<close>

lemma preprocess_df_distinct_labels:
  assumes "rectangular df" and "distinct (map fst (kept_columns df))"
  shows "preprocess_df df =
     Inr \<lparr>columns = kept_columns df,
          rows = [r \<leftarrow> map (project_row df) (rows df). \<not> total_row (kept_columns df) r]\<rparr>"
  using assms(2) rows_column_pass [OF assms(1)] columns_column_pass [of df]
  by (simp add: preprocess_df_cases)

lemma preprocess_df_sample:
  "rectangular sample_table \<and> distinct (map fst (kept_columns sample_table)) \<and>
   preprocess_df sample_table = Inr sample_filtered"
  using preprocess_df_distinct_labels [of sample_table]
  by (simp add: sample_table_def sample_filtered_def rectangular_def kept_columns_def
      project_row_def total_row_def is_total_label_def py_strip_def py_isspace_def
      ascii_def heji_def he_ji_def starts_with_def)

text \<open>
  C3. The filter is meant to drop the columns named by a marker and the rows in which a
  column of dtype object holds a marker, and nothing else. The override \<open>['amt', 'amt']\<close>
  on a file of two columns gives a table in which no label is a marker and no row holds
  one, so that nothing is to be dropped; the filter raises \<open>AttributeError\<close> on it, since
  \<open>df[col]\<close> is a DataFrame for a repeated label, and the file yields no result.
\<close>

theorem preprocess_df_repeated:
  "set_headers (custom_headers repeated_worker) pair_table = repeated_table \<and>
   rectangular repeated_table \<and>
   kept_columns repeated_table = columns repeated_table \<and>
   map (project_row repeated_table) (rows repeated_table) = rows repeated_table \<and>
   list_all (\<lambda>r. \<not> total_row (columns repeated_table) r) (rows repeated_table) \<and>
   preprocess_df repeated_table = Inl AttributeError \<and>
   analyse sample_parse repeated_worker (ascii ''a'') (ascii ''b.csv'') (Inr pair_table) =
     Inl AttributeError"
proof -
  have h: "set_headers (custom_headers repeated_worker) pair_table = repeated_table"
    by (simp add: set_headers_def repeated_worker_def pair_table_def repeated_table_def)
  have p: "preprocess_df repeated_table = Inl AttributeError"
    by (simp add: preprocess_df_def repeated_table_def labels_def getitem_def get_loc_def
        is_total_label_def py_strip_def py_isspace_def ascii_def heji_def he_ji_def Let_def)
  have "analyse sample_parse repeated_worker (ascii ''a'') (ascii ''b.csv'') (Inr pair_table) =
     Inl AttributeError"
    by (simp add: analyse_def load_table_def h p)
  with h p show ?thesis
    by (simp add: repeated_table_def rectangular_def kept_columns_def project_row_def
        total_row_def is_total_label_def py_strip_def py_isspace_def ascii_def heji_def
        he_ji_def)
qed

text \<open>
  C4. Filtering a filtered table changes nothing; when the filter raises there is no table
  to filter again, and the exception is the result on both sides.
\<close>

theorem preprocess_df_idempotent:
  "(case preprocess_df df of Inl e \<Rightarrow> Inl e | Inr df' \<Rightarrow> preprocess_df df') = preprocess_df df"
proof (cases "distinct (map fst (kept_columns df))")
  case False
  then show ?thesis by (simp add: preprocess_df_cases)
next
  case True
  define df' where
    "df' = (column_pass df)\<lparr>rows := [r \<leftarrow> rows (column_pass df). \<not> total_row (kept_columns df) r]\<rparr>"
  have r: "preprocess_df df = Inr df'"
    using True by (simp add: preprocess_df_cases df'_def)
  have c: "columns df' = kept_columns df"
    by (simp add: df'_def columns_column_pass)
  from kept_columns_idem [OF c] have cp: "column_pass df' = df'"
    by (simp add: column_pass_def)
  from c have k: "kept_columns df' = kept_columns df"
    by (simp add: kept_columns_def)
  have "preprocess_df df' = Inr (df'\<lparr>rows := [r \<leftarrow> rows df'. \<not> total_row (kept_columns df) r]\<rparr>)"
    using True by (simp add: preprocess_df_cases [of df'] k cp)
  also have "df'\<lparr>rows := [r \<leftarrow> rows df'. \<not> total_row (kept_columns df) r]\<rparr> = df'"
    by (simp add: df'_def)
  finally show ?thesis using r by simp
qed

theorem preprocess_df_idempotent_witness:
  "preprocess_df sample_table = Inr sample_filtered \<and>
   preprocess_df sample_filtered = Inr sample_filtered"
  using preprocess_df_idempotent [of sample_table]
  by (simp add: preprocess_df_def sample_table_def sample_filtered_def labels_def
      drop_columns_def getitem_def get_loc_def boolean_index_def is_total_label_def
      py_strip_def py_isspace_def ascii_def heji_def he_ji_def starts_with_def Let_def)

section \<open>The loops\<close>

lemma xlsx_loop_file_loop:
  "xlsx_loop parse stop_at w d fs st =
   file_loop stop_at (map (\<lambda>f. (xlsx_name f, analyse parse w d (xlsx_name f) (read_excel f))) fs) st"
  by (induction fs arbitrary: st) simp_all

lemma csv_loop_file_loop:
  "csv_loop parse stop_at w d fs st =
   file_loop stop_at (map (\<lambda>f. (csv_name f, analyse parse w d (csv_name f) (read_csv f))) fs) st"
  by (induction fs arbitrary: st) simp_all

lemma results_in_append: "results_in (xs @ ys) = results_in xs @ results_in ys"
  by (induction xs rule: results_in.induct) simp_all

lemma emitted_settle: "emitted (settle n out st) = emitted st @ signals_of out"
  by (cases out rule: signals_of.cases) (simp_all add: settle_def)

lemma polls_settle: "polls (settle n out st) = polls st"
  by (cases out rule: signals_of.cases) (simp_all add: settle_def)

lemma total_settle:
  "total_amount_all (settle n out st) = foldl add_number (total_amount_all st) (totals_of out)"
  by (cases out rule: signals_of.cases) (simp_all add: settle_def)

lemma tallied_settle: "tallied st \<Longrightarrow> tallied (settle n out st)"
  by (cases out rule: signals_of.cases) (simp_all add: settle_def tallied_def results_in_append)

lemma tallied_polls: "tallied (st\<lparr>polls := p\<rparr>) = tallied st"
  by (simp add: tallied_def)

lemma tallied_file_loop: "tallied st \<Longrightarrow> tallied (file_loop stop_at os st)"
  by (induction os arbitrary: st) (simp_all add: tallied_settle tallied_polls)

lemma admitted_Nil [simp]: "admitted stop_at p [] = []"
  by (simp add: admitted_def split: option.split)

lemma admitted_stopped:
  "\<not> is_running stop_at p \<Longrightarrow> admitted stop_at p xs = []"
  by (auto simp: admitted_def is_running_def split: option.splits)

lemma admitted_running:
  "is_running stop_at p \<Longrightarrow> admitted stop_at p (x # xs) = x # admitted stop_at (Suc p) xs"
  by (auto simp: admitted_def is_running_def take_Cons' split: option.splits)

lemma admitted_append:
  "advanced stop_at (length xs) p p' \<Longrightarrow>
   admitted stop_at p (xs @ ys) = admitted stop_at p xs @ admitted stop_at p' ys"
  by (auto simp: admitted_def advanced_def split: option.splits if_splits)

lemma advanced_trans:
  "advanced stop_at n p p' \<Longrightarrow> advanced stop_at m p' p'' \<Longrightarrow> advanced stop_at (n + m) p p''"
  by (auto simp: advanced_def split: option.splits if_splits)

lemma advanced_0: "advanced stop_at 0 p p"
  by (simp add: advanced_def split: option.split)

lemma emitted_file_loop:
  "emitted (file_loop stop_at os st) =
   emitted st @ concat (map (\<lambda>no. signals_of (snd no)) (admitted stop_at (polls st) os))"
proof (induction os arbitrary: st)
  case Nil
  show ?case by simp
next
  case (Cons no os)
  show ?case
  proof (cases "is_running stop_at (polls st)")
    case True
    with Cons.IH [of "settle (fst no) (snd no) (st\<lparr>polls := polls st + 1\<rparr>)"] show ?thesis
      by (simp add: admitted_running emitted_settle polls_settle)
  next
    case False
    then show ?thesis by (simp add: admitted_stopped)
  qed
qed

lemma total_file_loop:
  "total_amount_all (file_loop stop_at os st) =
   foldl add_number (total_amount_all st)
     (concat (map (\<lambda>no. totals_of (snd no)) (admitted stop_at (polls st) os)))"
proof (induction os arbitrary: st)
  case Nil
  show ?case by simp
next
  case (Cons no os)
  show ?case
  proof (cases "is_running stop_at (polls st)")
    case True
    with Cons.IH [of "settle (fst no) (snd no) (st\<lparr>polls := polls st + 1\<rparr>)"] show ?thesis
      by (simp add: admitted_running total_settle polls_settle)
  next
    case False
    then show ?thesis by (simp add: admitted_stopped)
  qed
qed

lemma polls_file_loop:
  "advanced stop_at (length os) (polls st) (polls (file_loop stop_at os st))"
proof (induction os arbitrary: st)
  case Nil
  show ?case by (simp add: advanced_0)
next
  case (Cons no os)
  show ?case
  proof (cases "is_running stop_at (polls st)")
    case True
    have "advanced stop_at 1 (polls st) (polls st + 1)"
      using True by (auto simp: advanced_def is_running_def split: option.splits)
    moreover have "advanced stop_at (length os) (polls st + 1)
        (polls (file_loop stop_at os (settle (fst no) (snd no) (st\<lparr>polls := polls st + 1\<rparr>))))"
      using Cons.IH [of "settle (fst no) (snd no) (st\<lparr>polls := polls st + 1\<rparr>)"]
      by (simp add: polls_settle)
    ultimately show ?thesis using True advanced_trans by fastforce
  next
    case False
    then show ?thesis
      by (auto simp: advanced_def is_running_def split: option.splits)
  qed
qed

lemma admitted_map: "admitted stop_at p (map f xs) = map f (admitted stop_at p xs)"
  by (simp add: admitted_def take_map split: option.split)

lemma admitted_directory:
  assumes "is_running stop_at p" and "advanced stop_at (length xs) (Suc p) p2"
    and "advanced stop_at (length ys) p2 p3"
  shows "admitted stop_at p (a # (xs @ (ys @ zs))) =
     a # (admitted stop_at (Suc p) xs @ (admitted stop_at p2 ys @ admitted stop_at p3 zs))"
  using admitted_append [OF assms(2), of "ys @ zs"] admitted_append [OF assms(3), of zs]
  by (simp only: admitted_running [OF assms(1)])

lemma dir_loop_listable:
  "\<forall>d\<in>set ds. listable d \<Longrightarrow>
   \<exists>st'. dir_loop parse stop_at w ds st = Inr st' \<and>
         emitted st' = emitted st @ concat (admitted stop_at (polls st) (checkpoints parse w ds)) \<and>
         advanced stop_at (length (checkpoints parse w ds)) (polls st) (polls st') \<and>
         (tallied st \<longrightarrow> tallied st') \<and>
         total_amount_all st' =
           foldl add_number (total_amount_all st)
             (concat (admitted stop_at (polls st) (subtotals parse w ds)))"
proof (induction ds arbitrary: st)
  case Nil
  show ?case by (simp add: checkpoints_def subtotals_def advanced_0)
next
  case (Cons d ds)
  from Cons.prems obtain xs cs where g: "glob_xlsx d = Inr xs" "glob_csv d = Inr cs"
    by (auto simp: listable_def split: sum.splits)
  let ?xo = "map (\<lambda>f. (xlsx_name f, analyse parse w (path d) (xlsx_name f) (read_excel f))) xs"
  let ?co = "map (\<lambda>f. (csv_name f, analyse parse w (path d) (csv_name f) (read_csv f))) cs"
  have cp: "checkpoints parse w (d # ds) =
      [progress_updated (analysing @ path d)] #
      (map (\<lambda>no. signals_of (snd no)) ?xo @ (map (\<lambda>no. signals_of (snd no)) ?co @ checkpoints parse w ds))"
    using g by (simp add: checkpoints_def checkpoints_of_def xlsx_outcomes_def csv_outcomes_def comp_def)
  have sp: "subtotals parse w (d # ds) =
      [] #
      (map (\<lambda>no. totals_of (snd no)) ?xo @ (map (\<lambda>no. totals_of (snd no)) ?co @ subtotals parse w ds))"
    using g by (simp add: subtotals_def subtotals_of_def xlsx_outcomes_def csv_outcomes_def comp_def)
  show ?case
  proof (cases "is_running stop_at (polls st)")
    case False
    have "advanced stop_at (length (checkpoints parse w (d # ds))) (polls st) (polls st + 1)"
      using False by (auto simp: cp advanced_def is_running_def split: option.splits)
    with False show ?thesis
      by (simp add: admitted_stopped tallied_def)
  next
    case True
    define st1 where "st1 = st\<lparr>polls := polls st + 1,
        emitted := emitted st @ [progress_updated (analysing @ path d)]\<rparr>"
    define st2 where "st2 = file_loop stop_at ?xo st1"
    define st3 where "st3 = file_loop stop_at ?co st2"
    from Cons.prems have "\<forall>d\<in>set ds. listable d" by simp
    from Cons.IH [OF this, of st3] obtain st' where st':
      "dir_loop parse stop_at w ds st3 = Inr st'"
      "emitted st' = emitted st3 @ concat (admitted stop_at (polls st3) (checkpoints parse w ds))"
      "advanced stop_at (length (checkpoints parse w ds)) (polls st3) (polls st')"
      "tallied st3 \<longrightarrow> tallied st'"
      "total_amount_all st' =
         foldl add_number (total_amount_all st3)
           (concat (admitted stop_at (polls st3) (subtotals parse w ds)))"
      by blast
    have run: "dir_loop parse stop_at w (d # ds) st = Inr st'"
      using True g st'(1)
      by (simp add: Let_def xlsx_loop_file_loop csv_loop_file_loop st1_def st2_def st3_def)
    have a1: "advanced stop_at 1 (polls st) (polls st1)"
      using True by (auto simp: st1_def advanced_def is_running_def split: option.splits)
    have a2: "advanced stop_at (length ?xo) (polls st1) (polls st2)"
      unfolding st2_def by (rule polls_file_loop)
    have a3: "advanced stop_at (length ?co) (polls st2) (polls st3)"
      unfolding st3_def by (rule polls_file_loop)
    have e2: "emitted st2 = emitted st1 @
        concat (admitted stop_at (polls st1) (map (\<lambda>no. signals_of (snd no)) ?xo))"
      unfolding st2_def by (simp only: emitted_file_loop admitted_map)
    have e3: "emitted st3 = emitted st2 @
        concat (admitted stop_at (polls st2) (map (\<lambda>no. signals_of (snd no)) ?co))"
      unfolding st3_def by (simp only: emitted_file_loop admitted_map)
    have p1: "polls st1 = Suc (polls st)" by (simp add: st1_def)
    have "admitted stop_at (polls st) (checkpoints parse w (d # ds)) =
        [progress_updated (analysing @ path d)] #
        (admitted stop_at (polls st1) (map (\<lambda>no. signals_of (snd no)) ?xo) @
         (admitted stop_at (polls st2) (map (\<lambda>no. signals_of (snd no)) ?co) @
          admitted stop_at (polls st3) (checkpoints parse w ds)))"
      using a2 a3 unfolding cp p1 by (intro admitted_directory [OF True]) simp_all
    then have em: "emitted st' = emitted st @
        concat (admitted stop_at (polls st) (checkpoints parse w (d # ds)))"
      by (simp add: st'(2) e3 e2 st1_def)
    have s2: "total_amount_all st2 = foldl add_number (total_amount_all st1)
        (concat (admitted stop_at (polls st1) (map (\<lambda>no. totals_of (snd no)) ?xo)))"
      unfolding st2_def by (simp only: total_file_loop admitted_map)
    have s3: "total_amount_all st3 = foldl add_number (total_amount_all st2)
        (concat (admitted stop_at (polls st2) (map (\<lambda>no. totals_of (snd no)) ?co)))"
      unfolding st3_def by (simp only: total_file_loop admitted_map)
    have "admitted stop_at (polls st) (subtotals parse w (d # ds)) =
        [] #
        (admitted stop_at (polls st1) (map (\<lambda>no. totals_of (snd no)) ?xo) @
         (admitted stop_at (polls st2) (map (\<lambda>no. totals_of (snd no)) ?co) @
          admitted stop_at (polls st3) (subtotals parse w ds)))"
      using a2 a3 unfolding sp p1 by (intro admitted_directory [OF True]) simp_all
    then have tot: "total_amount_all st' = foldl add_number (total_amount_all st)
        (concat (admitted stop_at (polls st) (subtotals parse w (d # ds))))"
      by (simp add: st'(5) s3 s2 st1_def)
    have "advanced stop_at (1 + (length ?xo + (length ?co + length (checkpoints parse w ds))))
        (polls st) (polls st')"
      by (intro advanced_trans [OF a1] advanced_trans [OF a2] advanced_trans [OF a3] st'(3))
    then have ad: "advanced stop_at (length (checkpoints parse w (d # ds))) (polls st) (polls st')"
      by (simp add: cp)
    have "tallied st \<Longrightarrow> tallied st3"
      unfolding st3_def st2_def
      by (intro tallied_file_loop) (simp add: st1_def tallied_def results_in_append)
    with st'(4) have "tallied st \<longrightarrow> tallied st'" by blast
    with run em ad tot show ?thesis by blast
  qed
qed

lemma body_mono: "body None xs \<Longrightarrow> body cur xs"
  by (cases xs rule: results_in.cases) simp_all

lemma only_results_append: "only_results (xs @ ys) = (only_results xs \<and> only_results ys)"
  by (induction xs rule: only_results.induct) simp_all

lemma body_append_results:
  "only_results xs \<Longrightarrow> body cur (xs @ ys) = (body cur xs \<and> body cur ys)"
  by (induction xs rule: only_results.induct) auto

lemma body_results:
  "only_results xs \<Longrightarrow> \<forall>r\<in>set (results_in xs). directory r = d \<Longrightarrow>
   body (Some (analysing @ d)) xs"
  by (induction xs rule: only_results.induct) auto

lemma protocol_body: "body cur xs \<Longrightarrow> is_terminal t \<Longrightarrow> protocol cur (xs @ [t])"
  by (induction cur xs rule: body.induct) (auto elim: is_terminal.elims)

lemma protocol_terminal:
  "protocol cur xs \<Longrightarrow> length (filter is_terminal xs) = 1 \<and> is_terminal (last xs)"
  by (induction cur xs rule: protocol.induct) (auto split: if_splits)

lemma signals_concat:
  "(\<And>no r t. no \<in> set os \<Longrightarrow> snd no = Inr (Some (r, t)) \<Longrightarrow> P r) \<Longrightarrow>
   only_results (concat (map (\<lambda>no. signals_of (snd no)) os)) \<and>
   (\<forall>r\<in>set (results_in (concat (map (\<lambda>no. signals_of (snd no)) os))). P r)"
proof (induction os)
  case Nil
  show ?case by simp
next
  case (Cons a os)
  have ih: "only_results (concat (map (\<lambda>no. signals_of (snd no)) os)) \<and>
   (\<forall>r\<in>set (results_in (concat (map (\<lambda>no. signals_of (snd no)) os))). P r)"
  proof (rule Cons.IH)
    fix no r t assume "no \<in> set os" "snd no = Inr (Some (r, t))"
    then show "P r" using Cons.prems [of no r t] by simp
  qed
  show ?case
  proof (cases "snd a" rule: signals_of.cases)
    case (1 r t)
    with Cons.prems [of a r t] have "P r" by simp
    with 1 ih show ?thesis by simp
  next
    case 2
    with ih show ?thesis by simp
  next
    case (3 e)
    with ih show ?thesis by simp
  qed
qed

lemma set_admitted: "x \<in> set (admitted stop_at p xs) \<Longrightarrow> x \<in> set xs"
  by (cases stop_at) (auto simp: admitted_def dest: in_set_takeD)

lemma file_loop_ext:
  assumes "\<And>no r t. no \<in> set os \<Longrightarrow> snd no = Inr (Some (r, t)) \<Longrightarrow> P r"
  shows "\<exists>ext. emitted (file_loop stop_at os st) = emitted st @ ext \<and> only_results ext \<and>
           (\<forall>r\<in>set (results_in ext). P r)"
proof -
  let ?os = "admitted stop_at (polls st) os"
  have "only_results (concat (map (\<lambda>no. signals_of (snd no)) ?os)) \<and>
   (\<forall>r\<in>set (results_in (concat (map (\<lambda>no. signals_of (snd no)) ?os))). P r)"
  proof (rule signals_concat)
    fix no r t assume "no \<in> set ?os" "snd no = Inr (Some (r, t))"
    then show "P r" using assms [of no r t] set_admitted [of no stop_at "polls st" os] by simp
  qed
  then show ?thesis
    by (intro exI [of _ "concat (map (\<lambda>no. signals_of (snd no)) ?os)"])
       (simp add: emitted_file_loop)
qed

lemma xlsx_loop_ext:
  assumes "\<forall>n rd r t. analyse parse w d n rd = Inr (Some (r, t)) \<longrightarrow> P r"
  shows "\<exists>ext. emitted (xlsx_loop parse stop_at w d xs st) = emitted st @ ext \<and>
           only_results ext \<and>
           (\<forall>r\<in>set (results_in ext). P r)"
  unfolding xlsx_loop_file_loop
proof (rule file_loop_ext)
  fix no r t
  assume a: "no \<in> set (map (\<lambda>f. (xlsx_name f, analyse parse w d (xlsx_name f) (read_excel f))) xs)"
    and b: "snd no = Inr (Some (r, t))"
  from a have "\<exists>f\<in>set xs. no = (xlsx_name f, analyse parse w d (xlsx_name f) (read_excel f))"
    by (simp add: image_iff)
  then obtain f :: xlsx_file
    where "no = (xlsx_name f, analyse parse w d (xlsx_name f) (read_excel f))"
    by blast
  with b have "analyse parse w d (xlsx_name f) (read_excel f) = Inr (Some (r, t))" by simp
  with assms show "P r" by blast
qed

lemma csv_loop_ext:
  assumes "\<forall>n rd r t. analyse parse w d n rd = Inr (Some (r, t)) \<longrightarrow> P r"
  shows "\<exists>ext. emitted (csv_loop parse stop_at w d cs st) = emitted st @ ext \<and>
           only_results ext \<and>
           (\<forall>r\<in>set (results_in ext). P r)"
  unfolding csv_loop_file_loop
proof (rule file_loop_ext)
  fix no r t
  assume a: "no \<in> set (map (\<lambda>f. (csv_name f, analyse parse w d (csv_name f) (read_csv f))) cs)"
    and b: "snd no = Inr (Some (r, t))"
  from a have "\<exists>f\<in>set cs. no = (csv_name f, analyse parse w d (csv_name f) (read_csv f))"
    by (simp add: image_iff)
  then obtain f :: csv_file
    where "no = (csv_name f, analyse parse w d (csv_name f) (read_csv f))"
    by blast
  with b have "analyse parse w d (csv_name f) (read_csv f) = Inr (Some (r, t))" by simp
  with assms show "P r" by blast
qed

lemma analyse_directory: "analyse parse w d n rd = Inr (Some (r, t)) \<Longrightarrow> directory r = d"
  by (auto simp: analyse_def split: sum.splits option.splits)

lemma analyse_amount: "analyse parse w d n rd = Inr (Some (r, t)) \<Longrightarrow> amount r = to_float t"
  by (auto simp: analyse_def split: sum.splits option.splits)

lemma dir_loop_general:
  assumes P: "\<forall>d n rd r t. analyse parse w d n rd = Inr (Some (r, t)) \<longrightarrow> P r"
  shows "\<exists>ext. emitted (state_of (dir_loop parse stop_at w ds st)) = emitted st @ ext \<and>
           body None ext \<and> (\<forall>r\<in>set (results_in ext). P r) \<and>
           (tallied st \<longrightarrow> tallied (state_of (dir_loop parse stop_at w ds st)))"
proof (induction ds arbitrary: st)
  case Nil
  show ?case by simp
next
  case (Cons d ds)
  have Pd: "\<forall>n rd r t. analyse parse w (path d) n rd = Inr (Some (r, t)) \<longrightarrow>
      P r \<and> directory r = path d"
    using P analyse_directory by blast
  show ?case
  proof (cases "is_running stop_at (polls st)")
    case False
    then show ?thesis by (simp add: tallied_def)
  next
    case True
    define st1 where "st1 = st\<lparr>polls := polls st + 1,
        emitted := emitted st @ [progress_updated (analysing @ path d)]\<rparr>"
    have t1: "tallied st \<Longrightarrow> tallied st1"
      by (simp add: st1_def tallied_def results_in_append)
    show ?thesis
    proof (cases "glob_xlsx d")
      case (Inl e)
      have "dir_loop parse stop_at w (d # ds) st = Inl (e, st1)"
        using True Inl by (simp add: Let_def st1_def)
      moreover have "emitted st1 = emitted st @ [progress_updated (analysing @ path d)]"
        by (simp add: st1_def)
      moreover have "body None [progress_updated (analysing @ path d)]" by simp
      moreover have "\<forall>r\<in>set (results_in [progress_updated (analysing @ path d)]). P r"
        by simp
      ultimately show ?thesis using t1 by (metis state_of.simps(1))
    next
      case xs: (Inr xs)
      define st2 where "st2 = xlsx_loop parse stop_at w (path d) xs st1"
      obtain ext2 where ext2: "emitted st2 = emitted st1 @ ext2" "only_results ext2"
        "\<forall>r\<in>set (results_in ext2). P r \<and> directory r = path d"
        unfolding st2_def
        using xlsx_loop_ext [OF Pd, of stop_at xs st1] by blast
      from ext2(3) have b2: "body (Some (analysing @ path d)) ext2"
        by (intro body_results [OF ext2(2)]) simp
      have t2: "tallied st \<Longrightarrow> tallied st2"
        unfolding st2_def xlsx_loop_file_loop by (intro tallied_file_loop t1)
      show ?thesis
      proof (cases "glob_csv d")
        case (Inl e)
        have "dir_loop parse stop_at w (d # ds) st = Inl (e, st2)"
          using True xs Inl by (simp add: Let_def st1_def st2_def)
        moreover have "emitted st2 = emitted st @ (progress_updated (analysing @ path d) # ext2)"
          by (simp add: ext2(1) st1_def)
        moreover have "body None (progress_updated (analysing @ path d) # ext2)"
          using b2 by simp
        moreover have "\<forall>r\<in>set (results_in (progress_updated (analysing @ path d) # ext2)). P r"
          using ext2(3) by simp
        ultimately show ?thesis using t2 by (metis state_of.simps(1))
      next
        case cs: (Inr cs)
        define st3 where "st3 = csv_loop parse stop_at w (path d) cs st2"
        obtain ext3 where ext3: "emitted st3 = emitted st2 @ ext3" "only_results ext3"
          "\<forall>r\<in>set (results_in ext3). P r \<and> directory r = path d"
          unfolding st3_def
          using csv_loop_ext [OF Pd, of stop_at cs st2] by blast
        from ext3(3) have b3: "body (Some (analysing @ path d)) ext3"
          by (intro body_results [OF ext3(2)]) simp
        have t3: "tallied st \<Longrightarrow> tallied st3"
          unfolding st3_def csv_loop_file_loop by (intro tallied_file_loop t2)
        from Cons.IH [of st3] obtain ext where ext:
          "emitted (state_of (dir_loop parse stop_at w ds st3)) = emitted st3 @ ext"
          "body None ext" "\<forall>r\<in>set (results_in ext). P r"
          "tallied st3 \<longrightarrow> tallied (state_of (dir_loop parse stop_at w ds st3))"
          by blast
        have step: "dir_loop parse stop_at w (d # ds) st = dir_loop parse stop_at w ds st3"
          using True xs cs by (simp add: Let_def st1_def st2_def st3_def)
        let ?ext = "progress_updated (analysing @ path d) # (ext2 @ (ext3 @ ext))"
        have "emitted (state_of (dir_loop parse stop_at w (d # ds) st)) = emitted st @ ?ext"
          by (simp add: step ext(1) ext3(1) ext2(1) st1_def del: dir_loop.simps)
        moreover have "body None ?ext"
          using b2 b3 body_mono [OF ext(2), of "Some (analysing @ path d)"]
          by (simp add: body_append_results [OF ext2(2)] body_append_results [OF ext3(2)])
        moreover have "\<forall>r\<in>set (results_in ?ext). P r"
          using ext2(3) ext3(3) ext(3) by (auto simp: results_in_append)
        moreover have "tallied st \<longrightarrow> tallied (state_of (dir_loop parse stop_at w (d # ds) st))"
          using t3 ext(4) by (simp add: step del: dir_loop.simps)
        ultimately show ?thesis by blast
      qed
    qed
  qed
qed

lemma preprocess_df_distinct: "preprocess_df df = Inr df' \<Longrightarrow> distinct (labels df')"
  by (auto simp: preprocess_df_cases labels_def columns_column_pass split: if_splits)

lemma preprocess_df_no_total:
  "preprocess_df df = Inr df' \<Longrightarrow> c \<in> set (labels df') \<Longrightarrow> \<not> is_total_label c"
  by (auto simp: preprocess_df_cases labels_def columns_column_pass kept_columns_def
      split: if_splits)

lemma preprocess_df_columns: "preprocess_df df = Inr df' \<Longrightarrow> columns df' = kept_columns df"
  by (auto simp: preprocess_df_cases columns_column_pass split: if_splits)

lemma sint_add_fits:
  fixes a b :: "64 word"
  assumes "- (2 ^ 63) \<le> sint a + sint b" and "sint a + sint b < 2 ^ 63"
  shows "sint (a + b) = sint a + sint b"
  using assms by (simp add: sint_word_ariths signed_take_bit_int_eq_self)

lemma to_float_add: "fits a b \<Longrightarrow> to_float (add_number a b) = to_float a + to_float b"
  by (cases a; cases b) (simp_all add: sint_add_fits)

lemma to_float_foldl:
  "no_wrap acc ts \<Longrightarrow>
   to_float (foldl add_number acc ts) = to_float acc + sum_list (map to_float ts)"
  by (induction ts arbitrary: acc) (simp_all add: to_float_add)

lemma to_float_grand_total:
  "no_wrap (IntNum 0) ts \<Longrightarrow> to_float (grand_total ts) = sum_list (map to_float ts)"
  using to_float_foldl [of "IntNum 0" ts] by (simp add: grand_total_def)

lemma sum_list_int64_values:
  "sum_list (int64_values vs) = word_of_int (\<Sum>v\<leftarrow>vs. int_value v)"
  by (induction vs rule: int64_values.induct) simp_all

lemma sum_list_float_values: "sum_list (float_values vs) = (\<Sum>v\<leftarrow>vs. value_of v)"
  by (induction vs rule: float_values.induct) simp_all



lemma series_sum_column:
  "(case to_numeric parse (snd (columns df ! i)) (map (\<lambda>r. r ! i) (rows df)) of
      (dt, nums) \<Rightarrow> series_sum dt nums) = column_sum parse df i"
  by (simp add: to_numeric_def series_sum_def column_sum_def int_column_def coerced_def
      sum_list_int64_values sum_list_float_values comp_def Let_def)

lemma file_total_nth:
  assumes "distinct (labels df)" "i < length (columns df)"
    and "fst (columns df ! i) = StrLabel (amount_column w)"
  shows "file_total parse w df = Inr (Some (column_sum parse df i))"
proof -
  from assms(2) have "fst (columns df ! i) \<in> set (labels df)"
    unfolding labels_def by (metis length_map nth_map nth_mem)
  with assms(3) have "StrLabel (amount_column w) \<in> set (labels df)" by simp
  moreover from getitem_nth [OF assms(1,2)] assms(3)
  have "getitem df (StrLabel (amount_column w)) =
      Inr (Series (snd (columns df ! i)) (map (\<lambda>r. r ! i) (rows df)))"
    by simp
  ultimately show ?thesis
    by (simp add: file_total_def series_sum_column)
qed

lemma file_total_present:
  assumes "distinct (labels df)" "StrLabel (amount_column w) \<in> set (labels df)"
  shows "\<exists>t. file_total parse w df = Inr (Some t)"
proof -
  from assms(2) obtain i where "i < length (labels df)"
    "labels df ! i = StrLabel (amount_column w)"
    by (auto simp: in_set_conv_nth)
  then have "i < length (columns df)" "fst (columns df ! i) = StrLabel (amount_column w)"
    by (simp_all add: labels_def)
  from file_total_nth [OF assms(1) this] show ?thesis by blast
qed

lemma file_total_absent:
  "StrLabel (amount_column w) \<notin> set (labels df) \<Longrightarrow> file_total parse w df = Inr None"
  by (simp add: file_total_def)

lemma analyse_has_target:
  "(\<exists>r t. analyse parse w d n rd = Inr (Some (r, t))) \<longleftrightarrow> has_target w rd"
proof (cases rd)
  case (Inl e)
  then show ?thesis by (simp add: analyse_def has_target_def)
next
  case (Inr df0)
  show ?thesis
  proof (cases "load_table w df0")
    case (Inl e)
    with Inr show ?thesis by (simp add: analyse_def has_target_def)
  next
    case ld: (Inr df)
    then have dist: "distinct (labels df)"
      by (simp add: load_table_def preprocess_df_distinct)
    show ?thesis
    proof (cases "StrLabel (amount_column w) \<in> set (labels df)")
      case True
      from file_total_present [OF dist True] obtain t where
        "file_total parse w df = Inr (Some t)" by blast
      with Inr ld True show ?thesis by (simp add: analyse_def has_target_def)
    next
      case False
      with Inr ld file_total_absent [OF False] show ?thesis
        by (simp add: analyse_def has_target_def)
    qed
  qed
qed





lemma tallied_initial: "tallied initial"
  by (simp add: tallied_def initial_def)

lemma outcome_amounts:
  "map amount (results_in (signals_of (analyse parse w d n rd))) =
   map to_float (totals_of (analyse parse w d n rd))"
  by (cases "analyse parse w d n rd" rule: signals_of.cases) (simp_all add: analyse_amount)

lemma outcomes_analyse:
  "out \<in> set (xlsx_outcomes parse w d @ csv_outcomes parse w d) \<Longrightarrow>
   \<exists>n rd. out = analyse parse w (path d) n rd"
  by (auto simp: xlsx_outcomes_def csv_outcomes_def split: sum.splits)

lemma paired_checkpoints_of:
  "list_all2 (\<lambda>s t. map amount (results_in s) = map to_float t)
     (checkpoints_of parse w d) (subtotals_of parse w d)"
proof -
  have "\<forall>out\<in>set (xlsx_outcomes parse w d @ csv_outcomes parse w d).
      map amount (results_in (signals_of out)) = map to_float (totals_of out)"
    using outcomes_analyse [of _ parse w d] outcome_amounts [of parse w "path d"] by metis
  then have "list_all2 (\<lambda>s t. map amount (results_in s) = map to_float t)
      (map signals_of (xlsx_outcomes parse w d @ csv_outcomes parse w d))
      (map totals_of (xlsx_outcomes parse w d @ csv_outcomes parse w d))"
    by (simp only: list_all2_map1 list_all2_map2 list_all2_same)
  then show ?thesis
    by (simp add: checkpoints_of_def subtotals_of_def del: map_append)
qed

lemma paired_checkpoints:
  "list_all2 (\<lambda>s t. map amount (results_in s) = map to_float t)
     (checkpoints parse w ds) (subtotals parse w ds)"
  by (induction ds)
     (simp_all add: checkpoints_def subtotals_def paired_checkpoints_of list_all2_appendI)

lemma paired_admitted:
  "list_all2 R xs ys \<Longrightarrow> list_all2 R (admitted stop_at p xs) (admitted stop_at p ys)"
  by (simp add: admitted_def list_all2_takeI split: option.split)

lemma paired_concat:
  "list_all2 (\<lambda>s t. map amount (results_in s) = map to_float t) xs ys \<Longrightarrow>
   map amount (results_in (concat xs)) = map to_float (concat ys)"
  by (induction xs ys rule: list_all2_induct) (simp_all add: results_in_append)

lemma amounts_admitted:
  "map amount (results_in (concat (admitted stop_at p (checkpoints parse w ds)))) =
   map to_float (concat (admitted stop_at p (subtotals parse w ds)))"
  by (intro paired_concat paired_admitted paired_checkpoints)

lemma run_listable:
  assumes "\<forall>d\<in>set (directories w). listable d"
  shows "run parse stop_at w =
     concat (admitted stop_at 0 (checkpoints parse w (directories w))) @
     [finished_analysis
        \<lparr>total_files =
           length (results_in (concat (admitted stop_at 0 (checkpoints parse w (directories w))))),
         total_amount =
           to_float (grand_total
             (concat (admitted stop_at 0 (subtotals parse w (directories w)))))\<rparr>]"
proof -
  from dir_loop_listable [OF assms, of parse stop_at w initial] obtain st' where
    "dir_loop parse stop_at w (directories w) initial = Inr st'"
    "emitted st' = emitted initial @
       concat (admitted stop_at (polls initial) (checkpoints parse w (directories w)))"
    "tallied initial \<longrightarrow> tallied st'"
    "total_amount_all st' =
       foldl add_number (total_amount_all initial)
         (concat (admitted stop_at (polls initial) (subtotals parse w (directories w))))"
    by blast
  then show ?thesis
    using tallied_initial by (simp add: run_def initial_def tallied_def grand_total_def)
qed

lemma run_last:
  "run parse stop_at w =
     emitted (state_of (dir_loop parse stop_at w (directories w) initial)) @
     [case dir_loop parse stop_at w (directories w) initial of
        Inr st \<Rightarrow> finished_analysis
          \<lparr>total_files = total_files_all st, total_amount = to_float (total_amount_all st)\<rparr>
      | Inl (e, st) \<Rightarrow> error_occurred e]"
  by (cases "dir_loop parse stop_at w (directories w) initial" rule: state_of.cases)
     (simp_all add: run_def)


lemma load_table_directories: "load_table (w\<lparr>directories := ds\<rparr>) = load_table w"
  by (simp add: load_table_def fun_eq_iff)

lemma file_total_directories:
  "file_total parse (w\<lparr>directories := ds\<rparr>) = file_total parse w"
  by (simp add: file_total_def fun_eq_iff)

lemma analyse_directories [simp]:
  "analyse parse (w\<lparr>directories := ds\<rparr>) d n rd = analyse parse w d n rd"
  by (simp add: analyse_def load_table_directories file_total_directories cong: sum.case_cong)

lemma checkpoints_of_directories [simp]:
  "checkpoints_of parse (w\<lparr>directories := ds\<rparr>) d = checkpoints_of parse w d"
  by (simp add: checkpoints_of_def xlsx_outcomes_def csv_outcomes_def cong: sum.case_cong)

lemma subtotals_of_directories [simp]:
  "subtotals_of parse (w\<lparr>directories := ds\<rparr>) d = subtotals_of parse w d"
  by (simp add: subtotals_of_def xlsx_outcomes_def csv_outcomes_def cong: sum.case_cong)



lemma map_fst_filter_zip:
  "length xs = length ys \<Longrightarrow> map fst [c \<leftarrow> zip xs ys. P (fst c)] = filter P xs"
  by (induction xs ys rule: list_induct2) simp_all

section \<open>The examples, evaluated\<close>

lemma sample_table_filtered: "preprocess_df sample_table = Inr sample_filtered"
  by (simp add: preprocess_df_def sample_table_def sample_filtered_def labels_def
      drop_columns_def getitem_def get_loc_def boolean_index_def is_total_label_def
      py_strip_def py_isspace_def ascii_def heji_def he_ji_def starts_with_def Let_def)

lemma shop_card: "extract_monthly_card (ascii ''shop_2024010112.xlsx'') = ascii ''2024010112''"
  by (simp add: extract_monthly_card_def match_d10_def ascii_def re_digit_ascii)

lemma b_card: "extract_monthly_card (ascii ''b.csv'') = []"
  by (simp add: extract_monthly_card_def match_d10_def ascii_def re_digit_ascii)

lemma shop_total:
  "file_total sample_parse sample_worker sample_filtered = Inr (Some (FloatNum 9.5))"
  by (simp add: file_total_def sample_worker_def sample_filtered_def labels_def getitem_def
      get_loc_def to_numeric_def series_sum_def sample_parse_def ascii_def)

lemma shop_outcome:
  "analyse sample_parse sample_worker (ascii ''a'') (ascii ''shop_2024010112.xlsx'')
     (Inr sample_table) = Inr (Some (shop_result, FloatNum 9.5))"
proof -
  have "load_table sample_worker sample_table = Inr sample_filtered"
    by (simp add: load_table_def set_headers_def sample_worker_def sample_table_filtered)
  then show ?thesis
    by (simp add: analyse_def shop_total shop_card shop_result_def)
qed

lemma plain_table_filtered: "preprocess_df plain_table = Inr plain_table"
  by (simp add: preprocess_df_def plain_table_def labels_def getitem_def get_loc_def
      boolean_index_def is_total_label_def py_strip_def py_isspace_def ascii_def heji_def
      he_ji_def starts_with_def Let_def)

lemma old_outcome:
  "analyse sample_parse sample_worker (ascii ''a'') (ascii ''old.csv'') (Inr plain_table) =
     Inr None"
proof -
  have "load_table sample_worker plain_table = Inr plain_table"
    by (simp add: load_table_def set_headers_def sample_worker_def plain_table_filtered)
  moreover have "file_total sample_parse sample_worker plain_table = Inr None"
    by (simp add: file_total_def sample_worker_def plain_table_def labels_def ascii_def)
  ultimately show ?thesis by (simp add: analyse_def)
qed

lemma amt_table_filtered: "preprocess_df amt_table = Inr amt_table"
  by (simp add: preprocess_df_def amt_table_def labels_def getitem_def get_loc_def
      boolean_index_def is_total_label_def py_strip_def py_isspace_def ascii_def heji_def
      he_ji_def starts_with_def Let_def)

lemma amt_outcome:
  "analyse sample_parse sample_worker (ascii ''b'') (ascii ''b.csv'') (Inr amt_table) =
     Inr (Some (amt_result, FloatNum 4))"
proof -
  have "load_table sample_worker amt_table = Inr amt_table"
    by (simp add: load_table_def set_headers_def sample_worker_def amt_table_filtered)
  moreover have "file_total sample_parse sample_worker amt_table = Inr (Some (FloatNum 4))"
    by (simp add: file_total_def sample_worker_def amt_table_def labels_def getitem_def
        get_loc_def to_numeric_def series_sum_def ascii_def)
  ultimately show ?thesis by (simp add: analyse_def b_card amt_result_def)
qed

lemma sample_fields:
  "directories sample_worker = [folder_a, folder_b, folder_c]"
  "amount_column sample_worker = ascii ''amt''"
  "custom_headers sample_worker = None"
  by (simp_all add: sample_worker_def)

lemma analyse_Inl: "analyse parse w d n (Inl e) = Inl e"
  by (simp add: analyse_def)

lemma sample_checkpoints:
  "checkpoints sample_parse sample_worker (directories sample_worker) =
     [[progress_updated (analysing @ ascii ''a'')], [file_result_ready shop_result], [], [],
      [progress_updated (analysing @ ascii ''b'')], [file_result_ready amt_result],
      [progress_updated (analysing @ ascii ''c'')]]"
  by (simp add: checkpoints_def checkpoints_of_def xlsx_outcomes_def csv_outcomes_def
      sample_fields folder_a_def folder_b_def folder_c_def shop_xlsx_def
      broken_xlsx_def old_csv_def amt_csv_def read_csv_def shop_outcome old_outcome
      amt_outcome analyse_Inl)

lemma sample_subtotals:
  "subtotals sample_parse sample_worker (directories sample_worker) =
     [[], [FloatNum 9.5], [], [], [], [FloatNum 4], []]"
  by (simp add: subtotals_def subtotals_of_def xlsx_outcomes_def csv_outcomes_def
      sample_fields folder_a_def folder_b_def folder_c_def shop_xlsx_def
      broken_xlsx_def old_csv_def amt_csv_def read_csv_def shop_outcome old_outcome
      amt_outcome analyse_Inl)

lemma sample_listable: "\<forall>d\<in>set (directories sample_worker). listable d"
  by (simp add: sample_fields listable_def folder_a_def folder_b_def folder_c_def)

lemma amount_results [simp]: "amount shop_result = 9.5" "amount amt_result = 4"
  by (simp_all add: shop_result_def amt_result_def)

lemma sample_run:
  "run sample_parse None sample_worker =
     [progress_updated (analysing @ ascii ''a''), file_result_ready shop_result,
      progress_updated (analysing @ ascii ''b''), file_result_ready amt_result,
      progress_updated (analysing @ ascii ''c''),
      finished_analysis \<lparr>total_files = 2, total_amount = 13.5\<rparr>]"
  by (simp add: run_listable [OF sample_listable] sample_checkpoints sample_subtotals
      admitted_def grand_total_def)

lemma total_fields:
  "directories total_worker = [folder_a, folder_b, folder_c]"
  "amount_column total_worker = heji"
  "custom_headers total_worker = Some [heji, ascii ''amt'', ascii ''n'']"
  by (simp_all add: total_worker_def)

lemma plain_renamed:
  "set_headers (Some [heji, ascii ''amt'', ascii ''n'']) plain_table = renamed_table"
  by (simp add: set_headers_def plain_table_def renamed_table_def)

lemma renamed_table_filtered: "preprocess_df renamed_table = Inr renamed_filtered"
  by (simp add: preprocess_df_def renamed_table_def renamed_filtered_def labels_def
      drop_columns_def getitem_def get_loc_def boolean_index_def is_total_label_def
      py_strip_def py_isspace_def ascii_def heji_def he_ji_def starts_with_def Let_def)

lemma total_label_heji: "is_total_label (StrLabel heji)"
  by (simp add: is_total_label_def py_strip_def py_isspace_def heji_def)

lemma failing_run:
  "run sample_parse None failing_worker =
     [progress_updated (analysing @ ascii ''x''), file_result_ready
        (shop_result\<lparr>directory := ascii ''x''\<rparr>), error_occurred OSError]"
proof -
  have "analyse sample_parse failing_worker (ascii ''x'') (ascii ''shop_2024010112.xlsx'')
     (Inr sample_table) = Inr (Some (shop_result\<lparr>directory := ascii ''x''\<rparr>, FloatNum 9.5))"
  proof -
    have "load_table failing_worker sample_table = Inr sample_filtered"
      by (simp add: load_table_def set_headers_def failing_worker_def sample_table_filtered)
    moreover have "file_total sample_parse failing_worker sample_filtered =
        Inr (Some (FloatNum 9.5))"
      by (simp add: file_total_def failing_worker_def sample_filtered_def labels_def
          getitem_def get_loc_def to_numeric_def series_sum_def sample_parse_def ascii_def)
    ultimately show ?thesis
      by (simp add: analyse_def shop_card shop_result_def)
  qed
  then show ?thesis
    by (simp add: run_def failing_worker_def initial_def folder_bad_def folder_b_def
        shop_xlsx_def is_running_def settle_def Let_def)
qed











section \<open>The run\<close>









lemma dir_loop_stopped:
  "\<not> is_running stop_at (polls st) \<Longrightarrow>
   \<exists>st'. dir_loop parse stop_at w ds st = Inr st' \<and> emitted st' = emitted st \<and>
         total_files_all st' = total_files_all st \<and> total_amount_all st' = total_amount_all st"
  by (cases ds) simp_all

lemma dir_loop_first:
  "listable d \<Longrightarrow> is_running stop_at (polls st) \<Longrightarrow>
   \<exists>st3. dir_loop parse stop_at w [d] st = Inr st3 \<and>
         dir_loop parse stop_at w (d # ds) st = dir_loop parse stop_at w ds st3"
  by (auto simp: listable_def Let_def split: sum.splits)

lemma length_checkpoints_of: "0 < length (checkpoints_of parse w d)"
  by (simp add: checkpoints_of_def)

lemma length_subtotals_of:
  "length (subtotals_of parse w d) = length (checkpoints_of parse w d)"
  by (simp add: subtotals_of_def checkpoints_of_def)

lemma run_first_directory:
  assumes "directories w = d # ds" and "listable d"
  shows "run parse (Some (length (checkpoints_of parse w d))) w =
         run parse None (w\<lparr>directories := [d]\<rparr>)"
proof -
  let ?k = "length (checkpoints_of parse w d)"
  have r0: "is_running (Some ?k) (polls initial)"
    using length_checkpoints_of [of parse w d] by (simp add: is_running_def initial_def)
  from dir_loop_first [OF assms(2) r0, of parse w ds] obtain st3 where st3:
    "dir_loop parse (Some ?k) w [d] initial = Inr st3"
    "dir_loop parse (Some ?k) w (d # ds) initial = dir_loop parse (Some ?k) w ds st3"
    by blast
  from assms(2) have l: "\<forall>x\<in>set [d]. listable x" by simp
  from dir_loop_listable [OF l, of parse "Some ?k" w initial] st3(1)
  have e3: "emitted st3 = concat (checkpoints_of parse w d)"
    and p3: "polls st3 = ?k" and t3: "tallied st3"
    and s3: "total_amount_all st3 = grand_total (concat (subtotals_of parse w d))"
    using tallied_initial
    by (simp_all add: checkpoints_def subtotals_def admitted_def advanced_def initial_def
        grand_total_def length_subtotals_of)
  from p3 have "\<not> is_running (Some ?k) (polls st3)" by (simp add: is_running_def)
  from dir_loop_stopped [OF this, of parse w ds] obtain st' where st':
    "dir_loop parse (Some ?k) w ds st3 = Inr st'" "emitted st' = emitted st3"
    "total_files_all st' = total_files_all st3" "total_amount_all st' = total_amount_all st3"
    by blast
  have "run parse (Some ?k) w = concat (checkpoints_of parse w d) @
      [finished_analysis
         \<lparr>total_files = length (results_in (concat (checkpoints_of parse w d))),
          total_amount = to_float (grand_total (concat (subtotals_of parse w d)))\<rparr>]"
    using st3(2) st' e3 t3 s3 assms(1) by (simp add: run_def tallied_def)
  moreover from assms(2) have "\<forall>x\<in>set (directories (w\<lparr>directories := [d]\<rparr>)). listable x"
    by simp
  from run_listable [OF this, of parse None]
  have "run parse None (w\<lparr>directories := [d]\<rparr>) = concat (checkpoints_of parse w d) @
      [finished_analysis
         \<lparr>total_files = length (results_in (concat (checkpoints_of parse w d))),
          total_amount = to_float (grand_total (concat (subtotals_of parse w d)))\<rparr>]"
    by (simp add: checkpoints_def subtotals_def admitted_def)
  ultimately show ?thesis by simp
qed

text \<open>
  C7. In a run whose listings succeed and whose first \<open>k\<close> reads of the flag see \<open>True\<close>,
  the notifications are those of the first \<open>k\<close> reads (made before a directory and before
  a file), nothing is emitted for a later file, and the run ends with a completion whose
  summary counts the results emitted before and holds the running total of exactly their
  subtotals: the sum of the emitted amounts, unless an addition of two integers in it
  leaves the signed 64-bit range. When the flag is set between the first directory and the
  second, the run is the run over the first directory alone, whatever the later directories
  are.
\<close>

theorem run_cancelled:
  "((\<forall>d\<in>set (directories w). listable d) \<longrightarrow>
      run parse (Some k) w =
        concat (take k (checkpoints parse w (directories w))) @
        [finished_analysis
           \<lparr>total_files =
              length (results_in (concat (take k (checkpoints parse w (directories w))))),
            total_amount =
              to_float (grand_total (concat (take k (subtotals parse w (directories w)))))\<rparr>] \<and>
      map amount (results_in (concat (take k (checkpoints parse w (directories w))))) =
        map to_float (concat (take k (subtotals parse w (directories w)))) \<and>
      (no_wrap (IntNum 0) (concat (take k (subtotals parse w (directories w)))) \<longrightarrow>
         to_float (grand_total (concat (take k (subtotals parse w (directories w))))) =
         sum_list (map amount
           (results_in (concat (take k (checkpoints parse w (directories w)))))))) \<and>
   (\<forall>d ds. directories w = d # ds \<and> listable d \<longrightarrow>
      run parse (Some (length (checkpoints_of parse w d))) w =
      run parse None (w\<lparr>directories := [d]\<rparr>))"
proof (intro conjI impI allI)
  assume "\<forall>d\<in>set (directories w). listable d"
  then show "run parse (Some k) w =
        concat (take k (checkpoints parse w (directories w))) @
        [finished_analysis
           \<lparr>total_files =
              length (results_in (concat (take k (checkpoints parse w (directories w))))),
            total_amount =
              to_float (grand_total (concat (take k (subtotals parse w (directories w)))))\<rparr>]"
    by (simp add: run_listable admitted_def)
next
  show a: "map amount (results_in (concat (take k (checkpoints parse w (directories w))))) =
        map to_float (concat (take k (subtotals parse w (directories w))))"
    using amounts_admitted [of "Some k" 0 parse w "directories w"] by (simp add: admitted_def)
  assume "no_wrap (IntNum 0) (concat (take k (subtotals parse w (directories w))))"
  then show "to_float (grand_total (concat (take k (subtotals parse w (directories w))))) =
         sum_list (map amount
           (results_in (concat (take k (checkpoints parse w (directories w))))))"
    by (simp add: to_float_grand_total a)
next
  fix d ds assume "directories w = d # ds \<and> listable d"
  then show "run parse (Some (length (checkpoints_of parse w d))) w =
      run parse None (w\<lparr>directories := [d]\<rparr>)"
    using run_first_directory by blast
qed

theorem run_cancelled_witness:
  "list_all listable (directories sample_worker) \<and>
   run sample_parse (Some 4) sample_worker =
     [progress_updated (analysing @ ascii ''a''), file_result_ready shop_result,
      finished_analysis \<lparr>total_files = 1, total_amount = 9.5\<rparr>] \<and>
   concat (take 4 (subtotals sample_parse sample_worker (directories sample_worker))) =
     [FloatNum 9.5] \<and>
   no_wrap (IntNum 0)
     (concat (take 4 (subtotals sample_parse sample_worker (directories sample_worker)))) \<and>
   run sample_parse (Some 4) sample_worker =
     run sample_parse None (sample_worker\<lparr>directories := [folder_a]\<rparr>)"
proof -
  have len: "length (checkpoints_of sample_parse sample_worker folder_a) = 4"
    by (simp add: checkpoints_of_def xlsx_outcomes_def csv_outcomes_def folder_a_def)
  have la: "listable folder_a"
    by (simp add: listable_def folder_a_def)
  have t: "concat (take 4 (subtotals sample_parse sample_worker (directories sample_worker))) =
     [FloatNum 9.5]"
    by (simp add: sample_subtotals)
  note rc = run_cancelled [of sample_worker sample_parse 4]
  from rc sample_listable have a: "run sample_parse (Some 4) sample_worker =
     [progress_updated (analysing @ ascii ''a''), file_result_ready shop_result,
      finished_analysis \<lparr>total_files = 1, total_amount = 9.5\<rparr>]"
    by (simp add: sample_checkpoints [unfolded sample_fields]
        sample_subtotals [unfolded sample_fields] sample_fields grand_total_def)
  from rc have "directories sample_worker = folder_a # [folder_b, folder_c] \<and>
      listable folder_a \<longrightarrow>
      run sample_parse (Some (length (checkpoints_of sample_parse sample_worker folder_a)))
        sample_worker = run sample_parse None (sample_worker\<lparr>directories := [folder_a]\<rparr>)"
    by blast
  with len la have b: "run sample_parse (Some 4) sample_worker =
     run sample_parse None (sample_worker\<lparr>directories := [folder_a]\<rparr>)"
    by (simp add: sample_fields)
  from a b t sample_listable show ?thesis by (simp add: list_all_iff)
qed



text \<open>
  C9. Whatever the files, the listings and the schedule, the notifications of a run are
  progress and result notifications, every result between the progress notification of its
  own directory and the next one, followed by one terminal notification, a completion or a
  failure: it occurs once and it is the last.
\<close>

theorem run_protocol:
  "protocol None (run parse stop_at w) \<and>
   length (filter is_terminal (run parse stop_at w)) = 1 \<and>
   is_terminal (last (run parse stop_at w))"
proof -
  have "\<forall>d n rd r t. analyse parse w d n rd = Inr (Some (r, t)) \<longrightarrow> True" by simp
  from dir_loop_general [where P = "\<lambda>r. True", OF this, of stop_at "directories w" initial]
  obtain ext where
    "emitted (state_of (dir_loop parse stop_at w (directories w) initial)) = emitted initial @ ext"
    "body None ext"
    by blast
  then have b: "body None (emitted (state_of (dir_loop parse stop_at w (directories w) initial)))"
    by (simp add: initial_def)
  have "is_terminal (case dir_loop parse stop_at w (directories w) initial of
        Inr st \<Rightarrow> finished_analysis
          \<lparr>total_files = total_files_all st, total_amount = to_float (total_amount_all st)\<rparr>
      | Inl (e, st) \<Rightarrow> error_occurred e)"
    by (cases "dir_loop parse stop_at w (directories w) initial" rule: state_of.cases) simp_all
  from protocol_body [OF b this] have "protocol None (run parse stop_at w)"
    by (simp only: run_last [symmetric])
  with protocol_terminal [of None "run parse stop_at w"] show ?thesis by blast
qed

theorem run_protocol_witness:
  "protocol None (run sample_parse None sample_worker) \<and>
   last (run sample_parse None sample_worker) =
     finished_analysis \<lparr>total_files = 2, total_amount = 13.5\<rparr> \<and>
   protocol None (run sample_parse None failing_worker) \<and>
   last (run sample_parse None failing_worker) = error_occurred OSError"
  using run_protocol [of sample_parse None sample_worker]
    run_protocol [of sample_parse None failing_worker]
  by (simp add: sample_run failing_run)

text \<open>
  C10. No column of a loaded table has a marker as its stripped label; when the override
  applies, the loaded labels are the override names without the marker names, in order. When
  the amount column is a marker name, no file yields a result, and a run that completes
  reports zero files and a zero total.
\<close>

theorem override_total_dropped:
  "(load_table w df0 = Inr df \<longrightarrow> (\<forall>c\<in>set (labels df). \<not> is_total_label c)) \<and>
   (custom_headers w = Some h \<and> length h = length (columns df0) \<and> load_table w df0 = Inr df \<longrightarrow>
      labels df = [c \<leftarrow> map StrLabel h. \<not> is_total_label c]) \<and>
   (is_total_label (StrLabel (amount_column w)) \<longrightarrow>
      results_in (run parse stop_at w) = [] \<and>
      (\<forall>s. last (run parse stop_at w) = finished_analysis s \<longrightarrow>
           total_files s = 0 \<and> total_amount s = 0))"
proof (intro conjI impI)
  assume "load_table w df0 = Inr df"
  then show "\<forall>c\<in>set (labels df). \<not> is_total_label c"
    using preprocess_df_no_total by (auto simp: load_table_def)
next
  assume a: "custom_headers w = Some h \<and> length h = length (columns df0) \<and>
    load_table w df0 = Inr df"
  then have "preprocess_df (set_headers (Some h) df0) = Inr df"
    by (auto simp: load_table_def)
  then have "columns df = kept_columns (set_headers (Some h) df0)"
    by (rule preprocess_df_columns)
  moreover from a have "length (map StrLabel h) = length (map snd (columns df0))" by simp
  ultimately show "labels df = [c \<leftarrow> map StrLabel h. \<not> is_total_label c]"
    using a map_fst_filter_zip [of "map StrLabel h" "map snd (columns df0)"
        "\<lambda>c. \<not> is_total_label c"]
    by (simp add: labels_def kept_columns_def set_headers_def)
next
  assume t: "is_total_label (StrLabel (amount_column w))"
  have none: "\<forall>d n rd r t. analyse parse w d n rd = Inr (Some (r, t)) \<longrightarrow> False"
  proof (intro allI impI)
    fix d n rd r t assume "analyse parse w d n rd = Inr (Some (r, t))"
    then have "has_target w rd" using analyse_has_target by blast
    then obtain df0 df where "load_table w df0 = Inr df"
      "StrLabel (amount_column w) \<in> set (labels df)"
      by (auto simp: has_target_def split: sum.splits)
    with t show False
      using preprocess_df_no_total by (auto simp: load_table_def)
  qed
  let ?R = "dir_loop parse stop_at w (directories w) initial"
  from dir_loop_general [where P = "\<lambda>r. False", OF none, of stop_at "directories w" initial]
  obtain ext where ext: "emitted (state_of ?R) = emitted initial @ ext"
    "\<forall>r\<in>set (results_in ext). False" "tallied initial \<longrightarrow> tallied (state_of ?R)"
    by blast
  from ext(2) have r0: "results_in ext = []" by (cases "results_in ext") auto
  with ext(1) have e0: "results_in (emitted (state_of ?R)) = []"
    by (simp add: initial_def)
  from ext(3) tallied_initial e0 have z: "total_files_all (state_of ?R) = 0"
    "total_amount_all (state_of ?R) = IntNum 0"
    by (simp_all add: tallied_def)
  have res: "results_in (run parse stop_at w) = [] \<and>
      (\<forall>s. last (run parse stop_at w) = finished_analysis s \<longrightarrow>
           total_files s = 0 \<and> total_amount s = 0)"
  proof (cases ?R rule: state_of.cases)
    case (1 e st)
    with e0 z show ?thesis by (simp add: run_def results_in_append)
  next
    case (2 st)
    with e0 z show ?thesis by (simp add: run_def results_in_append)
  qed
  from res show "results_in (run parse stop_at w) = []" by blast
  from res show "\<forall>s. last (run parse stop_at w) = finished_analysis s \<longrightarrow>
           total_files s = 0 \<and> total_amount s = 0" by blast
qed

theorem override_total_dropped_witness:
  "custom_headers total_worker = Some [heji, ascii ''amt'', ascii ''n''] \<and>
   length [heji, ascii ''amt'', ascii ''n''] = length (columns plain_table) \<and>
   load_table total_worker plain_table = Inr renamed_filtered \<and>
   labels renamed_filtered = [StrLabel (ascii ''amt''), StrLabel (ascii ''n'')] \<and>
   is_total_label (StrLabel (amount_column total_worker)) \<and>
   results_in (run sample_parse None total_worker) = []"
proof -
  have t: "is_total_label (StrLabel (amount_column total_worker))"
    by (simp add: total_fields total_label_heji)
  have l: "load_table total_worker plain_table = Inr renamed_filtered"
    by (simp add: load_table_def total_fields plain_renamed renamed_table_filtered)
  have n: "length [heji, ascii ''amt'', ascii ''n''] = length (columns plain_table)"
    by (simp add: plain_table_def)
  have f: "labels renamed_filtered = [StrLabel (ascii ''amt''), StrLabel (ascii ''n'')]"
    by (simp add: renamed_filtered_def labels_def)
  from override_total_dropped [of total_worker plain_table renamed_filtered
      "[heji, ascii ''amt'', ascii ''n'']" sample_parse None] t
  have "results_in (run sample_parse None total_worker) = []" by blast
  with t l n f total_fields(3) show ?thesis by blast
qed

end
